theory Spec2Isabelle
  imports Main "HOL-Library.Sublist"
begin

section \<open>Python strings\<close>

text \<open>
  A Python \<^verbatim>\<open>str\<close> is a sequence of Unicode code points, so a string is a list of
  natural numbers (the code points), not a list of bytes. ASCII literals of the source are
  written \<open>asc ''...''\<close>; the Japanese literals are spelled out as code points.
\<close>

type_synonym pystr = "nat list"

definition asc :: "string \<Rightarrow> pystr" where
  "asc s = map of_char s"

text \<open>
  \<^verbatim>\<open>str.isspace\<close> for one character: the 29 code points the Unicode database of
  CPython classifies as whitespace.
\<close>

definition isspace :: "nat \<Rightarrow> bool" where
  "isspace c \<longleftrightarrow>
     (9 \<le> c \<and> c \<le> 13) \<or> (28 \<le> c \<and> c \<le> 32) \<or> c = 133 \<or> c = 160 \<or> c = 5760 \<or>
     (8192 \<le> c \<and> c \<le> 8202) \<or> c = 8232 \<or> c = 8233 \<or> c = 8239 \<or> c = 8287 \<or> c = 12288"

text \<open>\<^verbatim>\<open>str.strip()\<close> with no argument: drops leading and trailing whitespace.\<close>

definition strip :: "pystr \<Rightarrow> pystr" where
  "strip s = rev (dropWhile isspace (rev (dropWhile isspace s)))"

section \<open>Query builder\<close>

text \<open>
  The constant \<^verbatim>\<open>EVENT_TERMS\<close> of the source: eight Japanese event words (event, holding,
  opening, festival, trial session, fes, exhibition, exhibit) separated by \<^verbatim>\<open>" OR "\<close>,
  written as code points (32 is the space, 79 and 82 are O and R).
\<close>

definition EVENT_TERMS :: pystr where
  "EVENT_TERMS =
     [12452, 12505, 12531, 12488, 32, 79, 82, 32, 38283, 20652, 32, 79, 82, 32,
      12458, 12540, 12503, 12531, 32, 79, 82, 32, 31085, 12426, 32, 79, 82, 32,
      20307, 39443, 20250, 32, 79, 82, 32, 12501, 12455, 12473, 32, 79, 82, 32,
      23637, 31034, 20250, 32, 79, 82, 32, 23637]"

text \<open>
  \<^verbatim>\<open>
  def build_query(place: str) -> str:
      place = place.strip()
      return f'({place}) AND ({EVENT_TERMS})'
  \<close>
\<close>

definition build_query :: "pystr \<Rightarrow> pystr" where
  "build_query place =
     (let place = strip place
      in asc ''('' @ place @ asc '') AND ('' @ EVENT_TERMS @ asc '')'')"

text \<open>The eight event terms of the literal, one by one, and the separator between them.\<close>

definition event_terms :: "pystr list" where
  "event_terms =
     [[12452, 12505, 12531, 12488], [38283, 20652], [12458, 12540, 12503, 12531],
      [31085, 12426], [20307, 39443, 20250], [12501, 12455, 12473],
      [23637, 31034, 20250], [23637]]"

fun join :: "pystr \<Rightarrow> pystr list \<Rightarrow> pystr" where
  "join sep [] = []"
| "join sep [x] = x"
| "join sep (x # y # ys) = x @ sep @ join sep (y # ys)"

section \<open>Errors\<close>

text \<open>Every exception the modelled code can raise is a value; \<open>Inl\<close> carries it.\<close>

datatype error = OverflowError | ValueError | UnicodeEncodeError

section \<open>Calendar arithmetic of the datetime module\<close>

text \<open>
  The source uses \<^verbatim>\<open>datetime\<close>, \<^verbatim>\<open>timedelta\<close> and \<^verbatim>\<open>time.mktime\<close> of
  the standard library. Their calendar arithmetic is the proleptic Gregorian calendar
  with day 1 = 0001-01-01, written here as the library's reference implementation
  computes it (\<^verbatim>\<open>_is_leap\<close>, \<^verbatim>\<open>_days_before_year\<close>, \<^verbatim>\<open>_ymd2ord\<close>,
  \<^verbatim>\<open>_ord2ymd\<close>). Python's \<^verbatim>\<open>//\<close> and \<^verbatim>\<open>%\<close> on integers round towards minus
  infinity, as \<open>div\<close> and \<open>mod\<close> on \<open>int\<close> do.
\<close>

definition is_leap :: "int \<Rightarrow> bool" where
  "is_leap y \<longleftrightarrow> y mod 4 = 0 \<and> (y mod 100 \<noteq> 0 \<or> y mod 400 = 0)"

definition days_before_year :: "int \<Rightarrow> int" where
  "days_before_year y' = (let y = y' - 1 in y * 365 + y div 4 - y div 100 + y div 400)"

text \<open>The tables are indexed by the month number 1..12; index 0 is a placeholder.\<close>

definition DAYS_IN_MONTH :: "int list" where
  "DAYS_IN_MONTH = [-1, 31, 28, 31, 30, 31, 30, 31, 31, 30, 31, 30, 31]"

definition DAYS_BEFORE_MONTH :: "int list" where
  "DAYS_BEFORE_MONTH = [-1, 0, 31, 59, 90, 120, 151, 181, 212, 243, 273, 304, 334]"

definition days_before_month :: "int \<Rightarrow> int \<Rightarrow> int" where
  "days_before_month y m =
     DAYS_BEFORE_MONTH ! nat m + (if m > 2 \<and> is_leap y then 1 else 0)"

definition ymd2ord :: "int \<Rightarrow> int \<Rightarrow> int \<Rightarrow> int" where
  "ymd2ord y m d = days_before_year y + days_before_month y m + d"

definition DI400Y :: int where "DI400Y = 146097"
definition DI100Y :: int where "DI100Y = 36524"
definition DI4Y :: int where "DI4Y = 1461"

definition MAXORDINAL :: int where "MAXORDINAL = 3652059"

text \<open>The ordinal of 1970-01-01, the POSIX epoch.\<close>

definition EPOCH_ORDINAL :: int where "EPOCH_ORDINAL = 719163"

definition ord2ymd :: "int \<Rightarrow> int \<times> int \<times> int" where
  "ord2ymd n0 =
     (let n = n0 - 1;
          n400 = n div DI400Y; n = n mod DI400Y;
          y = n400 * 400 + 1;
          n100 = n div DI100Y; n = n mod DI100Y;
          n4 = n div DI4Y; n = n mod DI4Y;
          n1 = n div 365; n = n mod 365;
          y = y + n100 * 100 + n4 * 4 + n1
      in if n1 = 4 \<or> n100 = 4 then (y - 1, 12, 31)
         else
           let leapyear = (n1 = 3 \<and> (n4 \<noteq> 24 \<or> n100 = 3));
               m = (n + 50) div 32;
               preceding = DAYS_BEFORE_MONTH ! nat m + (if m > 2 \<and> leapyear then 1 else 0)
           in if preceding > n
              then let m = m - 1;
                       preceding = preceding -
                         (DAYS_IN_MONTH ! nat m + (if m = 2 \<and> leapyear then 1 else 0))
                   in (y, m, n - preceding + 1)
              else (y, m, n - preceding + 1))"

subsection \<open>Dates\<close>

record date =
  d_year :: int
  d_month :: int
  d_day :: int

definition date_of_ymd :: "int \<times> int \<times> int \<Rightarrow> date" where
  "date_of_ymd t = (case t of (y, m, d) \<Rightarrow> \<lparr>d_year = y, d_month = m, d_day = d\<rparr>)"

definition fromordinal :: "int \<Rightarrow> date" where
  "fromordinal n = date_of_ymd (ord2ymd n)"

definition toordinal :: "date \<Rightarrow> int" where
  "toordinal d = ymd2ord (d_year d) (d_month d) (d_day d)"

text \<open>
  \<^verbatim>\<open>d - timedelta(days=x)\<close>: the constructor of \<^verbatim>\<open>timedelta\<close> refuses more than
  999999999 days, and the subtraction refuses a result outside 0001-01-01..9999-12-31.
\<close>

definition date_sub_days :: "date \<Rightarrow> int \<Rightarrow> error + date" where
  "date_sub_days d x =
     (if \<bar>x\<bar> > 999999999 then Inl OverflowError
      else let ordn = toordinal d + (- x)
           in if 0 < ordn \<and> ordn \<le> MAXORDINAL then Inr (fromordinal ordn)
              else Inl OverflowError)"

subsection \<open>Formatting numbers\<close>

fun digits :: "nat \<Rightarrow> pystr" where
  "digits n = (if n < 10 then [48 + n] else digits (n div 10) @ [48 + n mod 10])"

declare digits.simps [simp del]

text \<open>\<^verbatim>\<open>"%0wd" % n\<close>: decimal, padded with zeros to width \<open>w\<close>, the sign first.\<close>

definition zpad :: "nat \<Rightarrow> pystr \<Rightarrow> pystr" where
  "zpad w s = replicate (w - length s) 48 @ s"

definition fmt_d :: "nat \<Rightarrow> int \<Rightarrow> pystr" where
  "fmt_d w n = (if n < 0 then 45 # zpad (w - 1) (digits (nat (- n))) else zpad w (digits (nat n)))"

text \<open>\<^verbatim>\<open>date.isoformat()\<close> is \<^verbatim>\<open>"%04d-%02d-%02d" % (year, month, day)\<close>.\<close>

definition isoformat :: "date \<Rightarrow> pystr" where
  "isoformat d = fmt_d 4 (d_year d) @ asc ''-'' @ fmt_d 2 (d_month d) @ asc ''-'' @ fmt_d 2 (d_day d)"

subsection \<open>Date and time of day\<close>

record datetime =
  dt_year :: int
  dt_month :: int
  dt_day :: int
  dt_hour :: int
  dt_minute :: int
  dt_second :: int

text \<open>
  A count of seconds since the start of day 0 of the ordinal scale, split into the civil
  fields; \<open>None\<close> when the day is outside 0001-01-01..9999-12-31.
\<close>

definition datetime_of_seconds :: "int \<Rightarrow> datetime option" where
  "datetime_of_seconds secs =
     (let days = secs div 86400; r = secs mod 86400
      in if 0 < days \<and> days \<le> MAXORDINAL
         then (case ord2ymd days of (y, m, d) \<Rightarrow>
                 Some \<lparr>dt_year = y, dt_month = m, dt_day = d,
                       dt_hour = r div 3600, dt_minute = r mod 3600 div 60, dt_second = r mod 60\<rparr>)
         else None)"

definition seconds_of_datetime :: "datetime \<Rightarrow> int" where
  "seconds_of_datetime dt =
     ymd2ord (dt_year dt) (dt_month dt) (dt_day dt) * 86400
       + dt_hour dt * 3600 + dt_minute dt * 60 + dt_second dt"

text \<open>
  \<^verbatim>\<open>datetime.utcfromtimestamp(t)\<close> for a whole number of seconds \<open>t\<close> since the epoch:
  the UTC civil time, or \<^verbatim>\<open>ValueError\<close> (year out of range).
\<close>

definition utcfromtimestamp :: "int \<Rightarrow> error + datetime" where
  "utcfromtimestamp t =
     (case datetime_of_seconds (EPOCH_ORDINAL * 86400 + t) of
        None \<Rightarrow> Inl ValueError | Some dt \<Rightarrow> Inr dt)"

text \<open>
  Moving a UTC datetime to the zone with the fixed offset \<open>off\<close> seconds
  (\<^verbatim>\<open>tz.fromutc\<close>, used by \<^verbatim>\<open>astimezone\<close> and by \<^verbatim>\<open>datetime.now(tz)\<close>): adds the offset,
  \<^verbatim>\<open>OverflowError\<close> when the result leaves the range of dates.
\<close>

definition fromutc :: "int \<Rightarrow> datetime \<Rightarrow> error + datetime" where
  "fromutc off dt =
     (case datetime_of_seconds (seconds_of_datetime dt + off) of
        None \<Rightarrow> Inl OverflowError | Some dt' \<Rightarrow> Inr dt')"

text \<open>\<^verbatim>\<open>JST = timezone(timedelta(hours=9))\<close>, as its offset in seconds.\<close>

definition JST :: int where "JST = 9 * 3600"

definition date_of :: "datetime \<Rightarrow> date" where
  "date_of dt = \<lparr>d_year = dt_year dt, d_month = dt_month dt, d_day = dt_day dt\<rparr>"

text \<open>
  \<^verbatim>\<open>datetime.now(tz)\<close>. The clock is an input of the model: \<open>now\<close> is the instant the
  call reads, in microseconds since the epoch; the call converts it to UTC civil time and
  then to the zone.
\<close>

definition datetime_now :: "int \<Rightarrow> int \<Rightarrow> error + datetime" where
  "datetime_now now tz =
     (case utcfromtimestamp (now div 1000000) of
        Inl e \<Rightarrow> Inl e | Inr dt \<Rightarrow> fromutc tz dt)"

section \<open>Time helper\<close>

text \<open>
  \<^verbatim>\<open>
  def xdaysago(x: int = 0) -> str:
      return (datetime.now(JST).date() - timedelta(days=x)).isoformat()
  \<close>
\<close>

definition xdaysago :: "int \<Rightarrow> int \<Rightarrow> error + pystr" where
  "xdaysago now x =
     (case datetime_now now JST of
        Inl e \<Rightarrow> Inl e
      | Inr dt \<Rightarrow>
          (case date_sub_days (date_of dt) x of
             Inl e \<Rightarrow> Inl e | Inr d \<Rightarrow> Inr (isoformat d)))"

subsection \<open>Published time of a feed entry\<close>

text \<open>
  The \<^verbatim>\<open>time.struct_time\<close> the feed parser stores under \<^verbatim>\<open>published_parsed\<close>: the
  nine fields of a broken-down time, which the parser fills with the UTC reading of the
  entry's date.
\<close>

record struct_time =
  tm_year :: int
  tm_mon :: int
  tm_mday :: int
  tm_hour :: int
  tm_min :: int
  tm_sec :: int
  tm_wday :: int
  tm_yday :: int
  tm_isdst :: int

definition fits_c_int :: "int \<Rightarrow> bool" where
  "fits_c_int v \<longleftrightarrow> - 2147483648 \<le> v \<and> v \<le> 2147483647"

text \<open>
  \<^verbatim>\<open>time.mktime(tt)\<close> reads the fields as a time of the process's \<^emph>\<open>local\<close> zone and
  returns the seconds since the epoch. The local zone is an input of the model: a
  \<open>zone\<close> gives, for a broken-down time, the offset from UTC in seconds that the C
  library applies to it in the local zone of the process. The offset depends on the rules
  of the zone at that time and on \<^verbatim>\<open>tm_isdst\<close> (zero asks for standard time, a positive
  value for daylight saving time). The day and month are normalised as the C library does,
  \<^verbatim>\<open>tm_wday\<close> and \<^verbatim>\<open>tm_yday\<close> are ignored, and a field that does not fit a C
  \<^verbatim>\<open>int\<close> is an \<^verbatim>\<open>OverflowError\<close>.
\<close>

type_synonym zone = "struct_time \<Rightarrow> int"

definition mktime :: "zone \<Rightarrow> struct_time \<Rightarrow> error + int" where
  "mktime zone tt =
     (if list_all fits_c_int
           [tm_year tt, tm_mon tt, tm_mday tt, tm_hour tt, tm_min tt, tm_sec tt,
            tm_wday tt, tm_yday tt, tm_isdst tt]
      then let m0 = tm_mon tt - 1;
               y = tm_year tt + m0 div 12;
               m = m0 mod 12 + 1;
               days = ymd2ord y m 1 - EPOCH_ORDINAL + (tm_mday tt - 1)
           in Inr (days * 86400 + tm_hour tt * 3600 + tm_min tt * 60 + tm_sec tt - zone tt)
      else Inl OverflowError)"

text \<open>
  \<^verbatim>\<open>dt.strftime("%Y-%m-%d %H:%M")\<close>. The year is printed as the C library prints it,
  in decimal without padding (a year below 1000 has fewer than four digits); the other
  fields have two digits.
\<close>

definition strftime :: "datetime \<Rightarrow> pystr" where
  "strftime dt =
     fmt_d 1 (dt_year dt) @ asc ''-'' @ fmt_d 2 (dt_month dt) @ asc ''-'' @ fmt_d 2 (dt_day dt)
       @ asc '' '' @ fmt_d 2 (dt_hour dt) @ asc '':'' @ fmt_d 2 (dt_minute dt)"

section \<open>Feed entries and rows\<close>

text \<open>
  One entry of \<^verbatim>\<open>fp.entries\<close>, with the four keys the program reads. \<open>None\<close> is a key
  that is absent (or, for \<^verbatim>\<open>published_parsed\<close>, present with the value \<^verbatim>\<open>None\<close>: the
  program treats both alike). The value under \<^verbatim>\<open>source\<close> is a dictionary, with or
  without a \<^verbatim>\<open>title\<close>, or some value that is not a dictionary.
\<close>

datatype source_value = SourceDict "pystr option" | SourceOther

record entry =
  e_link :: "pystr option"
  e_title :: "pystr option"
  e_source :: "source_value option"
  e_published_parsed :: "struct_time option"

text \<open>
  One row of the table. \<^verbatim>\<open>source\<close> can hold Python's \<^verbatim>\<open>None\<close> (here \<open>None\<close>), which
  is not the empty string.
\<close>

record row =
  r_title :: pystr
  r_source :: "pystr option"
  r_published_jst :: pystr
  r_link :: pystr

text \<open>
  \<^verbatim>\<open>
  def _published_to_jst(entry):
      try:
          tt = entry.get("published_parsed")
          if not tt: return None
          epoch = time.mktime(tt)
          dt_utc = datetime.utcfromtimestamp(epoch).replace(tzinfo=timezone.utc)
          return dt_utc.astimezone(JST)
      except Exception:
          return None
  \<close>
  \<open>published_to_jst_try\<close> is the body of the \<^verbatim>\<open>try\<close>, \<open>published_to_jst\<close> the whole
  function, in which the handler turns every exception into \<^verbatim>\<open>None\<close>.
\<close>

definition published_to_jst_try :: "zone \<Rightarrow> entry \<Rightarrow> error + datetime option" where
  "published_to_jst_try zone e =
     (case e_published_parsed e of
        None \<Rightarrow> Inr None
      | Some tt \<Rightarrow>
          (case mktime zone tt of
             Inl err \<Rightarrow> Inl err
           | Inr epoch \<Rightarrow>
               (case utcfromtimestamp epoch of
                  Inl err \<Rightarrow> Inl err
                | Inr dt_utc \<Rightarrow>
                    (case fromutc JST dt_utc of
                       Inl err \<Rightarrow> Inl err
                     | Inr dt \<Rightarrow> Inr (Some dt)))))"

definition published_to_jst :: "zone \<Rightarrow> entry \<Rightarrow> datetime option" where
  "published_to_jst zone e =
     (case published_to_jst_try zone e of Inl err \<Rightarrow> None | Inr r \<Rightarrow> r)"

text \<open>\<^verbatim>\<open>link = e.get("link", "")\<close>\<close>

definition link_of :: "entry \<Rightarrow> pystr" where
  "link_of e = (case e_link e of None \<Rightarrow> [] | Some l \<Rightarrow> l)"

text \<open>
  The body of the loop after the \<^verbatim>\<open>continue\<close>: the row appended for an entry.
  \<^verbatim>\<open>
  title = e.get("title", "")
  src = e.get("source", {})
  source = src.get("title") if isinstance(src, dict) else ""
  published_jst = _published_to_jst(e)
  rows.append({"title": title, "source": source,
      "published_jst": published_jst.strftime("%Y-%m-%d %H:%M") if published_jst else "",
      "link": link})
  \<close>
\<close>

definition mk_row :: "zone \<Rightarrow> entry \<Rightarrow> row" where
  "mk_row zone e =
     (let link = link_of e;
          title = (case e_title e of None \<Rightarrow> [] | Some t \<Rightarrow> t);
          src = (case e_source e of None \<Rightarrow> SourceDict None | Some v \<Rightarrow> v);
          source = (case src of SourceDict t \<Rightarrow> t | SourceOther \<Rightarrow> Some []);
          published_jst = published_to_jst zone e
      in \<lparr>r_title = title, r_source = source,
          r_published_jst = (case published_jst of Some dt \<Rightarrow> strftime dt | None \<Rightarrow> []),
          r_link = link\<rparr>)"

text \<open>
  A Python slice \<^verbatim>\<open>xs[:n]\<close> (also \<^verbatim>\<open>df.iloc[:n]\<close> and \<^verbatim>\<open>df.head(n)\<close>): the first
  \<open>n\<close> elements, and all but the last \<open>-n\<close> when \<open>n\<close> is negative.
\<close>

definition slice_to :: "'a list \<Rightarrow> int \<Rightarrow> 'a list" where
  "slice_to xs n = (if 0 \<le> n then take (nat n) xs else take (length xs - nat (- n)) xs)"

text \<open>
  The loop of \<^verbatim>\<open>google_news_to_table\<close>, with its two variables \<^verbatim>\<open>rows\<close> and
  \<^verbatim>\<open>seen\<close>:
  \<^verbatim>\<open>
  for e in fp.entries[:limit]:
      link = e.get("link", "")
      if not link or link in seen: continue
      seen.add(link)
      ...
      rows.append({...})
  \<close>
\<close>

fun table_loop :: "zone \<Rightarrow> entry list \<Rightarrow> row list \<Rightarrow> pystr set \<Rightarrow> row list \<times> pystr set" where
  "table_loop zone [] rows seen = (rows, seen)"
| "table_loop zone (e # es) rows seen =
     (let link = link_of e
      in if link = [] \<or> link \<in> seen then table_loop zone es rows seen
         else table_loop zone es (rows @ [mk_row zone e]) (insert link seen))"

section \<open>The environment of a request\<close>

text \<open>
  What the program reads from outside: the clock (read once by each call of
  \<^verbatim>\<open>xdaysago\<close>, so twice per request), the feed parser's answer for a URL
  (\<^verbatim>\<open>feedparser.parse(url).entries\<close>, or the exception it raised), and the local zone of
  the process.
\<close>

datatype fetch_error = FetchError

record env =
  clock1 :: int
  clock2 :: int
  feed :: "pystr \<Rightarrow> fetch_error + entry list"
  local_zone :: zone

datatype failure = Raised error | FetchFailed fetch_error

text \<open>What a request does that can be observed: the feed it fetches and what it renders.\<close>

datatype event =
    Fetch pystr
  | Warning
  | InfoNoResults
  | InfoIdle
  | Subheader
  | Card row
  | Dataframe "row list"
  | Code pystr
  | Uncaught failure

text \<open>
  \<^verbatim>\<open>
  def google_news_to_table(rss_url: str, limit: int = 50) -> pd.DataFrame:
      fp = feedparser.parse(rss_url)
      rows, seen = [], set()
      for e in fp.entries[:limit]: ...
      return pd.DataFrame(rows)
  \<close>
  The data frame is the list of its rows. The result carries the fetch the call made.
\<close>

definition google_news_to_table ::
    "env \<Rightarrow> pystr \<Rightarrow> int \<Rightarrow> event list \<times> (failure + row list)" where
  "google_news_to_table w rss_url limit =
     ([Fetch rss_url],
      (case feed w rss_url of
         Inl err \<Rightarrow> Inl (FetchFailed err)
       | Inr entries \<Rightarrow>
           Inr (fst (table_loop (local_zone w) (slice_to entries limit) [] {}))))"

section \<open>URL quoting\<close>

text \<open>
  \<^verbatim>\<open>urllib.parse.quote_plus\<close>: the string is encoded in UTF-8 (strict: a surrogate
  code point is a \<^verbatim>\<open>UnicodeEncodeError\<close>), every byte outside the unreserved set
  becomes \<^verbatim>\<open>%XX\<close> and a space becomes \<^verbatim>\<open>+\<close>. No Python string holds a code point
  above 0x10FFFF; the model refuses one.
\<close>

definition utf8_char :: "nat \<Rightarrow> error + nat list" where
  "utf8_char c =
     (if c < 128 then Inr [c]
      else if c < 2048 then Inr [192 + c div 64, 128 + c mod 64]
      else if 55296 \<le> c \<and> c \<le> 57343 then Inl UnicodeEncodeError
      else if c < 65536 then Inr [224 + c div 4096, 128 + c div 64 mod 64, 128 + c mod 64]
      else if c \<le> 1114111
        then Inr [240 + c div 262144, 128 + c div 4096 mod 64, 128 + c div 64 mod 64,
                  128 + c mod 64]
      else Inl UnicodeEncodeError)"

fun encode_utf8 :: "pystr \<Rightarrow> error + nat list" where
  "encode_utf8 [] = Inr []"
| "encode_utf8 (c # cs) =
     (case utf8_char c of
        Inl e \<Rightarrow> Inl e
      | Inr bs \<Rightarrow> (case encode_utf8 cs of Inl e \<Rightarrow> Inl e | Inr rest \<Rightarrow> Inr (bs @ rest)))"

text \<open>The bytes never quoted: letters, digits and \<^verbatim>\<open>_.-~\<close>.\<close>

definition always_safe :: "nat \<Rightarrow> bool" where
  "always_safe b \<longleftrightarrow>
     (65 \<le> b \<and> b \<le> 90) \<or> (97 \<le> b \<and> b \<le> 122) \<or> (48 \<le> b \<and> b \<le> 57) \<or>
     b = 95 \<or> b = 46 \<or> b = 45 \<or> b = 126"

definition hex_digit :: "nat \<Rightarrow> nat" where
  "hex_digit d = (if d < 10 then 48 + d else 55 + d)"

definition quoter :: "nat list \<Rightarrow> nat \<Rightarrow> pystr" where
  "quoter safe b =
     (if always_safe b \<or> b \<in> set safe then [b]
      else [37, hex_digit (b div 16), hex_digit (b mod 16)])"

definition quote :: "pystr \<Rightarrow> nat list \<Rightarrow> error + pystr" where
  "quote string safe =
     (if string = [] then Inr string
      else case encode_utf8 string of
             Inl e \<Rightarrow> Inl e
           | Inr bs \<Rightarrow> Inr (concat (map (quoter safe) bs)))"

definition replace :: "pystr \<Rightarrow> nat \<Rightarrow> nat \<Rightarrow> pystr" where
  "replace s old new = map (\<lambda>c. if c = old then new else c) s"

definition quote_plus :: "pystr \<Rightarrow> error + pystr" where
  "quote_plus string =
     (if 32 \<notin> set string then quote string []
      else case quote string [32] of
             Inl e \<Rightarrow> Inl e
           | Inr s \<Rightarrow> Inr (replace s 32 43))"

section \<open>The request pipeline\<close>

text \<open>
  \<^verbatim>\<open>
  def q_to_tb(place: str, add: str = "") -> tuple[pd.DataFrame, str, str]:
      yesterday = xdaysago(1)
      tomorrow = xdaysago(-1)
      query = build_query(place)
      q_param = f"after:{yesterday}+before:{tomorrow}+{quote_plus(query)}"
      rss_url = f"https://news.google.com/rss/search?q={q_param}&hl=ja&gl=JP&ceid=JP:ja{add}"
      df = google_news_to_table(rss_url).iloc[:20]
      return df, rss_url, query
  \<close>
\<close>

definition q_to_tb ::
    "env \<Rightarrow> pystr \<Rightarrow> pystr \<Rightarrow> event list \<times> (failure + row list \<times> pystr \<times> pystr)" where
  "q_to_tb w place add =
     (case xdaysago (clock1 w) 1 of
        Inl e \<Rightarrow> ([], Inl (Raised e))
      | Inr yesterday \<Rightarrow>
     (case xdaysago (clock2 w) (- 1) of
        Inl e \<Rightarrow> ([], Inl (Raised e))
      | Inr tomorrow \<Rightarrow>
     (let query = build_query place
      in case quote_plus query of
           Inl e \<Rightarrow> ([], Inl (Raised e))
         | Inr quoted \<Rightarrow>
     (let q_param = asc ''after:'' @ yesterday @ asc ''+before:'' @ tomorrow @ asc ''+'' @ quoted;
          rss_url = asc ''https://news.google.com/rss/search?q='' @ q_param
                      @ asc ''&hl=ja&gl=JP&ceid=JP:ja'' @ add
      in case google_news_to_table w rss_url 50 of
           (evs, Inl f) \<Rightarrow> (evs, Inl f)
         | (evs, Inr tb) \<Rightarrow> (evs, Inr (slice_to tb 20, rss_url, query))))))"

text \<open>
  The handler of the page, for one run of the script with the widget values \<^verbatim>\<open>run\<close>,
  \<^verbatim>\<open>place\<close> and \<^verbatim>\<open>max_rows\<close>:
  \<^verbatim>\<open>
  if run:
      if not place.strip():
          st.warning(...); st.stop()
      df, rss_url, actual_query = q_to_tb(place)
      if df.empty:
          st.info(...); st.stop()
      df = df.head(max_rows)
      st.subheader(...)
      for _, row in df.iterrows(): ...
      with st.expander(...): st.dataframe(...)
      st.markdown(...); st.code(rss_url, language="text")
  else:
      st.info(...)
  \<close>
  The result is the sequence of events of the run.
\<close>

definition page :: "env \<Rightarrow> bool \<Rightarrow> pystr \<Rightarrow> int \<Rightarrow> event list" where
  "page w run place max_rows =
     (if run then
        (if strip place = [] then [Warning]
         else case q_to_tb w place [] of
                (evs, Inl f) \<Rightarrow> evs @ [Uncaught f]
              | (evs, Inr (df, rss_url, actual_query)) \<Rightarrow>
                  if df = [] then evs @ [InfoNoResults]
                  else let df = slice_to df max_rows
                       in evs @ [Subheader] @ map Card df @ [Dataframe df, Code rss_url])
      else [InfoIdle])"

text \<open>The rows a run displays as cards, and the feeds it fetched.\<close>

fun cards :: "event list \<Rightarrow> row list" where
  "cards [] = []"
| "cards (Card r # evs) = r # cards evs"
| "cards (ev # evs) = cards evs"

fun fetches :: "event list \<Rightarrow> pystr list" where
  "fetches [] = []"
| "fetches (Fetch u # evs) = u # fetches evs"
| "fetches (ev # evs) = fetches evs"

section \<open>Auxiliary definitions for the proofs\<close>

text \<open>
  The two halves of \<open>ord2ymd\<close>, named so that they can be reasoned about one at a time:
  the cycle counts of an ordinal, and the month and day of a day of the year.
\<close>

definition ord_parts :: "int \<Rightarrow> int \<times> int \<times> int \<times> int \<times> int" where
  "ord_parts n0 =
     (let n = n0 - 1;
          n400 = n div DI400Y; n = n mod DI400Y;
          n100 = n div DI100Y; n = n mod DI100Y;
          n4 = n div DI4Y; n = n mod DI4Y;
          n1 = n div 365; n = n mod 365
      in (n400, n100, n4, n1, n))"

definition month_day :: "int \<Rightarrow> bool \<Rightarrow> int \<times> int" where
  "month_day n leapyear =
     (let m = (n + 50) div 32;
          preceding = DAYS_BEFORE_MONTH ! nat m + (if m > 2 \<and> leapyear then 1 else 0)
      in if preceding > n
         then let m = m - 1;
                  preceding = preceding -
                    (DAYS_IN_MONTH ! nat m + (if m = 2 \<and> leapyear then 1 else 0))
              in (m, n - preceding + 1)
         else (m, n - preceding + 1))"

text \<open>
  The entries the loop keeps, as a function of the set \<open>seen\<close> it starts with, and the
  indices of the first occurrences of the non-empty links of a feed.
\<close>

fun survivors :: "pystr set \<Rightarrow> entry list \<Rightarrow> entry list" where
  "survivors seen [] = []"
| "survivors seen (e # es) =
     (if link_of e = [] \<or> link_of e \<in> seen then survivors seen es
      else e # survivors (insert (link_of e) seen) es)"

definition first_occurrences :: "entry list \<Rightarrow> nat list" where
  "first_occurrences es =
     filter (\<lambda>i. link_of (es ! i) \<noteq> [] \<and> link_of (es ! i) \<notin> set (map link_of (take i es)))
       [0..<length es]"

text \<open>
  The day of the Japanese calendar an instant falls on, as an ordinal, and the instant at
  which such a day begins (both in the units of the clock: microseconds since the epoch).
\<close>

definition jst_day :: "int \<Rightarrow> int" where
  "jst_day now = EPOCH_ORDINAL + (now div 1000000 + 32400) div 86400"

definition jst_midnight :: "int \<Rightarrow> int" where
  "jst_midnight D = ((D - EPOCH_ORDINAL) * 86400 - 32400) * 1000000"

text \<open>
  The shape \<^verbatim>\<open>YYYY-MM-DD\<close> of a date without a time, and the characters a quoted URL
  parameter is made of: the unreserved ones, \<^verbatim>\<open>%\<close> and \<^verbatim>\<open>+\<close>.
\<close>

definition is_digit :: "nat \<Rightarrow> bool" where
  "is_digit c \<longleftrightarrow> 48 \<le> c \<and> c \<le> 57"

definition iso_date_shape :: "pystr \<Rightarrow> bool" where
  "iso_date_shape s \<longleftrightarrow>
     length s = 10 \<and> list_all is_digit (take 4 s) \<and> s ! 4 = 45 \<and>
     list_all is_digit (take 2 (drop 5 s)) \<and> s ! 7 = 45 \<and> list_all is_digit (drop 8 s)"

definition url_safe :: "nat \<Rightarrow> bool" where
  "url_safe c \<longleftrightarrow> always_safe c \<or> c = 37 \<or> c = 43"

section \<open>Sample inputs\<close>

text \<open>
  The local zone of a host whose zone has one offset and no daylight saving time: a time
  given as standard time (\<^verbatim>\<open>tm_isdst\<close> = 0, as the feed parser gives it) or with
  \<^verbatim>\<open>tm_isdst\<close> negative is read at that offset, one given as daylight saving time is read
  one hour ahead of it. A host running in UTC and a host running in Japan.
\<close>

definition zone_without_dst :: "int \<Rightarrow> zone" where
  "zone_without_dst off tt = (if tm_isdst tt > 0 then off + 3600 else off)"

definition utc_zone :: zone where
  "utc_zone = zone_without_dst 0"

definition tokyo_zone :: zone where
  "tokyo_zone = zone_without_dst 32400"

text \<open>
  Entries with only a link and a title, a feed of \<open>n\<close> entries with \<open>n\<close> different links,
  an environment whose clock reads 2024-06-15 09:00 in Japan (00:00 UTC) and whose feed
  is the same for every URL, the default place of the form (Shibuya station) with its
  quoted query and request URL on that day, and an entry with a link and a published time.
\<close>

definition plain_entry :: "pystr option \<Rightarrow> pystr option \<Rightarrow> entry" where
  "plain_entry l t = \<lparr>e_link = l, e_title = t, e_source = None, e_published_parsed = None\<rparr>"

definition numbered_entries :: "nat \<Rightarrow> entry list" where
  "numbered_entries n = map (\<lambda>k. plain_entry (Some [97 + k]) None) [0..<n]"

definition static_env :: "zone \<Rightarrow> entry list \<Rightarrow> env" where
  "static_env z es =
     \<lparr>clock1 = 1718409600000000, clock2 = 1718409600000000,
      feed = (\<lambda>u. Inr es), local_zone = z\<rparr>"

definition shibuya_station :: pystr where
  "shibuya_station = [28171, 35895, 39365]"

definition sample_quoted :: pystr where
  "sample_quoted = asc ''%28%E6%B8%8B%E8%B0%B7%E9%A7%85%29+AND+%28%E3%82%A4%E3%83%99%E3%83%B3%E3%83%88+OR+%E9%96%8B%E5%82%AC+OR+%E3%82%AA%E3%83%BC%E3%83%97%E3%83%B3+OR+%E7%A5%AD%E3%82%8A+OR+%E4%BD%93%E9%A8%93%E4%BC%9A+OR+%E3%83%95%E3%82%A7%E3%82%B9+OR+%E5%B1%95%E7%A4%BA%E4%BC%9A+OR+%E5%B1%95%29''"

definition sample_url :: pystr where
  "sample_url = asc ''https://news.google.com/rss/search?q=after:2024-06-14+before:2024-06-16+''
     @ sample_quoted @ asc ''&hl=ja&gl=JP&ceid=JP:ja''"

text \<open>
  An environment for a request made at the end of 2024-06-15 in Japan: the first reading of
  the clock is the last microsecond of that day, the second the first of 2024-06-16.
\<close>

definition midnight_env :: env where
  "midnight_env =
     \<lparr>clock1 = 1718463599999999, clock2 = 1718463600000000,
      feed = (\<lambda>u. Inr []), local_zone = utc_zone\<rparr>"

definition published_entry :: "pystr \<Rightarrow> struct_time \<Rightarrow> entry" where
  "published_entry l tt =
     \<lparr>e_link = Some l, e_title = None, e_source = None, e_published_parsed = Some tt\<rparr>"

section \<open>The calendar: ordinals and dates\<close>

lemma month_day_ok:
  assumes "0 \<le> r" "r \<le> 364"
  shows "case month_day r L of (m, d) \<Rightarrow>
           1 \<le> m \<and> m \<le> 12 \<and> 1 \<le> d \<and> d \<le> 31 \<and>
           DAYS_BEFORE_MONTH ! nat m + (if m > 2 \<and> L then 1 else 0) + d = r + 1"
proof -
  define m0 where "m0 = (r + 50) div 32"
  have "1 \<le> m0 \<and> m0 \<le> 12" using assms unfolding m0_def by presburger
  then have "m0 = 1 \<or> m0 = 2 \<or> m0 = 3 \<or> m0 = 4 \<or> m0 = 5 \<or> m0 = 6 \<or> m0 = 7 \<or> m0 = 8
      \<or> m0 = 9 \<or> m0 = 10 \<or> m0 = 11 \<or> m0 = 12" by arith
  moreover have "32 * m0 \<le> r + 50 \<and> r + 50 < 32 * m0 + 32" unfolding m0_def by presburger
  ultimately show ?thesis
    using assms unfolding month_day_def Let_def m0_def [symmetric]
    by (elim disjE) (auto simp: DAYS_BEFORE_MONTH_def DAYS_IN_MONTH_def)
qed

lemma ord_parts_sum:
  assumes "ord_parts n = (a, b, c, e, r)"
  shows "n = 146097 * a + 36524 * b + 1461 * c + 365 * e + r + 1"
    and "0 \<le> b" "b \<le> 4" "0 \<le> c" "c \<le> 24" "0 \<le> e" "e \<le> 4" "0 \<le> r" "r \<le> 364"
    and "b = 4 \<Longrightarrow> c = 0 \<and> e = 0 \<and> r = 0"
    and "e = 4 \<Longrightarrow> r = 0"
    and "c = 24 \<Longrightarrow> e \<le> 3"
    and "36524 * b + 1461 * c + 365 * e + r < 146097"
proof -
  define r0 where "r0 = (n - 1) mod 146097"
  define r1 where "r1 = r0 mod 36524"
  define r2 where "r2 = r1 mod 1461"
  from assms have a: "a = (n - 1) div 146097" and b: "b = r0 div 36524"
    and c: "c = r1 div 1461" and e: "e = r2 div 365" and r: "r = r2 mod 365"
    by (simp_all add: ord_parts_def Let_def DI400Y_def DI100Y_def DI4Y_def
          r0_def r1_def r2_def)
  have n0: "n - 1 = 146097 * a + r0" and r0: "0 \<le> r0" "r0 < 146097"
    by (simp_all add: a r0_def)
  have n1: "r0 = 36524 * b + r1" and r1: "0 \<le> r1" "r1 < 36524"
    by (simp_all add: b r1_def)
  have n2: "r1 = 1461 * c + r2" and r2: "0 \<le> r2" "r2 < 1461"
    by (simp_all add: c r2_def)
  have n3: "r2 = 365 * e + r" and r3: "0 \<le> r" "r < 365"
    by (simp_all add: e r)
  show "n = 146097 * a + 36524 * b + 1461 * c + 365 * e + r + 1"
    using n0 n1 n2 n3 by linarith
  show "0 \<le> b" using n1 r0 r1 by linarith
  show "b \<le> 4" using n1 r0 r1 by linarith
  show "0 \<le> c" using n2 r1 r2 by linarith
  show "c \<le> 24" using n2 r1 r2 by linarith
  show "0 \<le> e" using n3 r2 r3 by linarith
  show "e \<le> 4" using n3 r2 r3 by linarith
  show "0 \<le> r" by (rule r3)
  show "r \<le> 364" using r3 by linarith
  show "c = 0 \<and> e = 0 \<and> r = 0" if "b = 4"
  proof -
    have "r1 = 0" using that n1 r0 r1 by linarith
    then have "r2 = 0" by (simp add: r2_def)
    then show ?thesis using \<open>r1 = 0\<close> by (simp add: c e r)
  qed
  show "r = 0" if "e = 4" using that n3 r2 r3 by linarith
  show "e \<le> 3" if "c = 24" using that n2 n3 r1 r3 by linarith
  show "36524 * b + 1461 * c + 365 * e + r < 146097" using n1 n2 n3 r0 by linarith
qed

lemma ord2ymd_parts:
  "ord2ymd n =
     (case ord_parts n of (a, b, c, e, r) \<Rightarrow>
        if e = 4 \<or> b = 4 then (a * 400 + 1 + b * 100 + c * 4 + e - 1, 12, 31)
        else case month_day r (e = 3 \<and> (c \<noteq> 24 \<or> b = 3)) of
               (m, d) \<Rightarrow> (a * 400 + 1 + b * 100 + c * 4 + e, m, d))"
  unfolding ord2ymd_def ord_parts_def month_day_def Let_def prod.case
  by (simp only: if_distrib [where f = "\<lambda>p. case p of (m, d) \<Rightarrow> (_, m, d)"] prod.case)

lemma days_before_year_parts:
  assumes "0 \<le> b" "b \<le> 3" "0 \<le> c" "c \<le> 24" "0 \<le> e" "e \<le> 3"
  shows "days_before_year (a * 400 + 1 + b * 100 + c * 4 + e)
           = 146097 * a + 36524 * b + 1461 * c + 365 * e"
proof -
  define Y where "Y = a * 400 + b * 100 + c * 4 + e"
  have d4: "Y div 4 = 100 * a + 25 * b + c"
    by (rule int_div_pos_eq [where r = e]) (use assms in \<open>simp_all add: Y_def\<close>)
  have d100: "Y div 100 = 4 * a + b"
    by (rule int_div_pos_eq [where r = "c * 4 + e"]) (use assms in \<open>simp_all add: Y_def\<close>)
  have d400: "Y div 400 = a"
    by (rule int_div_pos_eq [where r = "b * 100 + c * 4 + e"])
       (use assms in \<open>simp_all add: Y_def\<close>)
  have "days_before_year (Y + 1) = Y * 365 + Y div 4 - Y div 100 + Y div 400"
    by (simp add: days_before_year_def)
  also have "\<dots> = 146097 * a + 36524 * b + 1461 * c + 365 * e"
    unfolding d4 d100 d400 by (simp add: Y_def)
  finally show ?thesis by (simp add: Y_def algebra_simps)
qed

lemma mod_zero_range: "0 < x \<Longrightarrow> x \<le> k \<Longrightarrow> (x mod k = 0) = (x = (k::int))"
  by (cases "x = k") simp_all

lemma is_leap_parts:
  assumes "0 \<le> b" "b \<le> 3" "0 \<le> c" "c \<le> 24" "0 \<le> e" "e \<le> 3"
  shows "is_leap (a * 400 + 1 + b * 100 + c * 4 + e) \<longleftrightarrow> (e = 3 \<and> (c \<noteq> 24 \<or> b = 3))"
proof -
  define y where "y = a * 400 + 1 + b * 100 + c * 4 + e"
  have m4: "y mod 4 = (e + 1) mod 4"
  proof -
    have "y = (e + 1) + 4 * (a * 100 + b * 25 + c)" by (simp add: y_def)
    then show ?thesis by (metis mod_mult_self2)
  qed
  have m100: "y mod 100 = (c * 4 + e + 1) mod 100"
  proof -
    have "y = (c * 4 + e + 1) + 100 * (a * 4 + b)" by (simp add: y_def)
    then show ?thesis by (metis mod_mult_self2)
  qed
  have m400: "y mod 400 = (b * 100 + c * 4 + e + 1) mod 400"
  proof -
    have "y = (b * 100 + c * 4 + e + 1) + 400 * a" by (simp add: y_def)
    then show ?thesis by (metis mod_mult_self2)
  qed
  have e: "(e + 1) mod 4 = 0 \<longleftrightarrow> e = 3"
    using assms by (subst mod_zero_range) linarith+
  have c: "(c * 4 + e + 1) mod 100 = 0 \<longleftrightarrow> c = 24 \<and> e = 3"
    using assms by (subst mod_zero_range) linarith+
  have b: "(b * 100 + c * 4 + e + 1) mod 400 = 0 \<longleftrightarrow> b = 3 \<and> c = 24 \<and> e = 3"
    using assms by (subst mod_zero_range) linarith+
  show ?thesis
    unfolding is_leap_def y_def [symmetric] m4 m100 m400 e c b by blast
qed

lemma ymd2ord_dec31:
  assumes "0 \<le> b" "b \<le> 3" "0 \<le> c" "c \<le> 24" "c \<noteq> 24 \<or> b = 3"
  shows "ymd2ord (a * 400 + 1 + b * 100 + c * 4 + 3) 12 31
           = 146097 * a + 36524 * b + 1461 * c + 1461"
  using assms days_before_year_parts [of b c 3 a] is_leap_parts [of b c 3 a]
  by (simp add: ymd2ord_def days_before_month_def DAYS_BEFORE_MONTH_def)

text \<open>Converting an ordinal to year, month and day and back gives the ordinal.\<close>

lemma ymd2ord_ord2ymd:
  assumes "ord2ymd n = (y, m, d)"
  shows "ymd2ord y m d = n"
proof -
  obtain a b c e r where p: "ord_parts n = (a, b, c, e, r)"
    by (metis prod_cases5)
  note s = ord_parts_sum [OF p]
  show ?thesis
  proof (cases "e = 4 \<or> b = 4")
    case True
    then have ymd: "y = a * 400 + 1 + b * 100 + c * 4 + e - 1" "m = 12" "d = 31"
      using assms by (simp_all add: ord2ymd_parts p)
    show ?thesis
    proof (cases "b = 4")
      case True
      with s have z: "c = 0" "e = 0" "r = 0" by simp_all
      have "y = a * 400 + 1 + 3 * 100 + 24 * 4 + 3" using ymd True z by simp
      then show ?thesis
        using ymd2ord_dec31 [of 3 24 a] s(1) True z ymd(2,3) by simp
    next
      case False
      with True have e: "e = 4" by simp
      with s have r: "r = 0" by simp
      have b: "b \<le> 3" using False s(3) by simp
      have c: "c \<noteq> 24" using s(12) e by auto
      have "y = a * 400 + 1 + b * 100 + c * 4 + 3" using ymd e by simp
      then show ?thesis
        using ymd2ord_dec31 [of b c a] s(1,2,4,5) b c e r ymd(2,3) by simp
    qed
  next
    case False
    then have b: "b \<le> 3" and e: "e \<le> 3" using s(3,7) by simp_all
    define L where "L \<longleftrightarrow> e = 3 \<and> (c \<noteq> 24 \<or> b = 3)"
    from False assms have md: "month_day r L = (m, d)"
      and y: "y = a * 400 + 1 + b * 100 + c * 4 + e"
      by (auto simp add: ord2ymd_parts p L_def split: prod.splits)
    have leap: "is_leap y = L"
      unfolding y L_def using s b e by (intro is_leap_parts) simp_all
    have dby: "days_before_year y = 146097 * a + 36524 * b + 1461 * c + 365 * e"
      unfolding y using s b e by (intro days_before_year_parts) simp_all
    from month_day_ok [OF s(8,9), of L] md
    have "DAYS_BEFORE_MONTH ! nat m + (if m > 2 \<and> L then 1 else 0) + d = r + 1"
      by simp
    then show ?thesis
      using dby leap s(1) by (simp add: ymd2ord_def days_before_month_def)
  qed
qed

text \<open>Inside the range of dates, the year has four digits and the month and day two.\<close>

lemma ord2ymd_range:
  assumes "ord2ymd n = (y, m, d)" "1 \<le> n" "n \<le> MAXORDINAL"
  shows "1 \<le> y \<and> y \<le> 9999 \<and> 1 \<le> m \<and> m \<le> 12 \<and> 1 \<le> d \<and> d \<le> 31"
proof -
  obtain a b c e r where p: "ord_parts n = (a, b, c, e, r)"
    by (metis prod_cases5)
  note s = ord_parts_sum [OF p]
  have n: "1 \<le> n" "n \<le> 3652059" using assms by (simp_all add: MAXORDINAL_def)
  have a0: "0 \<le> a" using s(1,13) n by linarith
  have a24: "a \<le> 24" using s(1-9) n by linarith
  have top: "400 * a + 100 * b + 4 * c + e \<le> 9998"
  proof (cases "a = 24")
    case True
    have "36524 * b + 1461 * c + 365 * e + r \<le> 145730" using s(1) n True by linarith
    then have "b \<le> 2 \<or> (b = 3 \<and> (c \<le> 23 \<or> (c = 24 \<and> e \<le> 2)))"
      using s(2-9) by linarith
    then show ?thesis using True s(2-9) by linarith
  next
    case False
    then have "a \<le> 23" using a24 by simp
    then show ?thesis using s(2-9) by linarith
  qed
  show ?thesis
  proof (cases "e = 4 \<or> b = 4")
    case True
    then have ymd: "y = a * 400 + 1 + b * 100 + c * 4 + e - 1" "m = 12" "d = 31"
      using assms by (simp_all add: ord2ymd_parts p)
    have "1 \<le> b * 100 + c * 4 + e" using True s by auto
    then show ?thesis using ymd a0 top by simp
  next
    case False
    define L where "L \<longleftrightarrow> e = 3 \<and> (c \<noteq> 24 \<or> b = 3)"
    from False assms have md: "month_day r L = (m, d)"
      and y: "y = a * 400 + 1 + b * 100 + c * 4 + e"
      by (auto simp add: ord2ymd_parts p L_def split: prod.splits)
    from month_day_ok [OF s(8,9), of L] md
    have "1 \<le> m \<and> m \<le> 12 \<and> 1 \<le> d \<and> d \<le> 31" by simp
    then show ?thesis using y a0 top s(2,4,6) by simp
  qed
qed

lemma toordinal_fromordinal: "toordinal (fromordinal n) = n"
  by (cases "ord2ymd n") (simp add: toordinal_def fromordinal_def date_of_ymd_def ymd2ord_ord2ymd)

section \<open>Properties of the query builder\<close>

lemma asc_simps [simp]: "asc [] = []" "asc (c # cs) = of_char c # asc cs"
  by (simp_all add: asc_def)

lemma EVENT_TERMS_join: "EVENT_TERMS = join (asc '' OR '') event_terms \<and> length event_terms = 8"
  by (simp add: EVENT_TERMS_def event_terms_def)

lemma strip_id_iff:
  "strip p = p \<longleftrightarrow> p = [] \<or> (\<not> isspace (hd p) \<and> \<not> isspace (last p))"
proof (cases p)
  case Nil
  then show ?thesis by (simp add: strip_def)
next
  case (Cons c cs)
  show ?thesis
  proof (cases "isspace c")
    case True
    have "length (strip p) \<le> length (dropWhile isspace p)"
      unfolding strip_def
      using length_dropWhile_le [of isspace "rev (dropWhile isspace p)"] by simp
    also have "\<dots> < length p" using True Cons by (simp add: length_dropWhile_le le_imp_less_Suc)
    finally show ?thesis using True Cons by auto
  next
    case False
    then have d: "dropWhile isspace p = p" using Cons by simp
    have ne: "p \<noteq> []" using Cons by simp
    then have hl: "hd (rev p) = last p" by (simp add: hd_rev)
    from ne obtain x xs where rp: "rev p = x # xs" by (cases "rev p") simp_all
    show ?thesis
    proof (cases "isspace (last p)")
      case True
      then have "isspace x" using hl rp by simp
      then have "length (dropWhile isspace (rev p)) < length (rev p)"
        unfolding rp by (simp add: length_dropWhile_le le_imp_less_Suc)
      then have "length (strip p) < length p" by (simp add: strip_def d)
      then show ?thesis using True Cons by auto
    next
      case l: False
      then have "\<not> isspace x" using hl rp by simp
      then have "dropWhile isspace (rev p) = rev p" unfolding rp by simp
      then show ?thesis using False l Cons by (simp add: strip_def d)
    qed
  qed
qed

text \<open>
  Claim C2, as the code has it: for every place string \<open>p\<close>, \<open>build_query p\<close> is
  \<^verbatim>\<open>"(" + p.strip() + ") AND (" + terms + ")"\<close>, where the terms are the eight fixed
  event words joined by \<^verbatim>\<open>" OR "\<close>. The first group holds the place with its leading and
  trailing whitespace removed, so \<open>p\<close> stands there verbatim exactly when it is empty or
  neither starts nor ends with a whitespace character.
\<close>

theorem build_query_shape:
  "build_query p = asc ''('' @ strip p @ asc '') AND ('' @ join (asc '' OR '') event_terms @ asc '')''
   \<and> length event_terms = 8
   \<and> (strip p = p \<longleftrightarrow> p = [] \<or> (\<not> isspace (hd p) \<and> \<not> isspace (last p)))"
  using EVENT_TERMS_join strip_id_iff [of p] by (simp add: build_query_def)

theorem build_query_shape_witness:
  "build_query [28171, 35895, 39365]
     = asc ''('' @ [28171, 35895, 39365] @ asc '') AND ('' @ join (asc '' OR '') event_terms @ asc '')''"
  using build_query_shape [of "[28171, 35895, 39365]"] by (simp add: isspace_def)

text \<open>
  The place \<^verbatim>\<open>" a"\<close> is not empty, and it does not occur anywhere in the query built
  for it: the first group is \<^verbatim>\<open>(a)\<close>.
\<close>

theorem build_query_verbatim_counterexample:
  "build_query (asc '' a'') = asc ''(a) AND ('' @ EVENT_TERMS @ asc '')''
   \<and> build_query (asc '' a'') \<noteq> asc ''('' @ asc '' a'' @ asc '') AND ('' @ EVENT_TERMS @ asc '')''
   \<and> \<not> sublist (asc '' a'') (build_query (asc '' a''))"
  by (simp add: build_query_def strip_def isspace_def EVENT_TERMS_def sublist_Cons_right prefix_Cons)



section \<open>The table of a feed\<close>

lemma table_loop_survivors:
  "table_loop off es rows seen =
     (rows @ map (mk_row off) (survivors seen es), seen \<union> link_of ` set (survivors seen es))"
  by (induction es arbitrary: rows seen) (auto simp: Let_def)

lemma survivors_links:
  "distinct (map link_of (survivors seen es)) \<and>
   link_of ` set (survivors seen es) = link_of ` set es - {[]} - seen"
  by (induction es arbitrary: seen) auto

lemma survivors_subseq: "subseq (survivors seen es) es"
  by (induction es arbitrary: seen) auto

lemma survivors_index:
  "survivors seen es =
     map (nth es)
       (filter (\<lambda>i. link_of (es ! i) \<noteq> [] \<and> link_of (es ! i) \<notin> seen \<and>
                    link_of (es ! i) \<notin> set (map link_of (take i es)))
          [0..<length es])"
proof (induction es arbitrary: seen)
  case Nil
  then show ?case by simp
next
  case (Cons e es)
  have upt: "[0..<length (e # es)] = 0 # map Suc [0..<length es]"
    by (simp add: upt_conv_Cons map_Suc_upt del: upt_Suc)
  show ?case
    unfolding upt
    by (simp add: Cons.IH filter_map o_def)
       (intro conjI impI arg_cong [where f = "map ((!) es)"] filter_cong refl; auto)
qed

lemma r_link_mk_row [simp]: "r_link (mk_row off e) = link_of e"
  by (simp add: mk_row_def Let_def)

lemma length_slice_to: "0 \<le> n \<Longrightarrow> length (slice_to xs n) = min (nat n) (length xs)"
  by (simp add: slice_to_def)


lemma slice_to_nonneg: "0 \<le> n \<Longrightarrow> slice_to xs n = take (nat n) xs"
  by (simp add: slice_to_def)

lemma cards_append [simp]: "cards (xs @ ys) = cards xs @ cards ys"
  by (induction xs rule: cards.induct) simp_all

lemma cards_map_Card [simp]: "cards (map Card rs) = rs"
  by (induction rs) simp_all

lemma fetches_append [simp]: "fetches (xs @ ys) = fetches xs @ fetches ys"
  by (induction xs rule: fetches.induct) simp_all

lemma fetches_map_Card [simp]: "fetches (map Card rs) = []"
  by (induction rs) simp_all

text \<open>The table of a feed: one row per first occurrence of a non-empty link.\<close>

lemma table_rows:
  "fst (table_loop off es [] {}) = map (\<lambda>i. mk_row off (es ! i)) (first_occurrences es)"
  by (simp add: table_loop_survivors survivors_index first_occurrences_def o_def)

lemma table_links_distinct: "distinct (map r_link (fst (table_loop off es [] {})))"
  using survivors_links [of "{}" es] by (simp add: table_loop_survivors o_def)

lemma table_links_set:
  "set (map r_link (fst (table_loop off es [] {}))) = link_of ` set es - {[]}"
  using survivors_links [of "{}" es] by (simp add: table_loop_survivors image_image)

lemma table_length:
  "length (fst (table_loop off es [] {})) = card (link_of ` set es - {[]})"
proof -
  have "length (fst (table_loop off es [] {})) = length (map r_link (fst (table_loop off es [] {})))"
    by simp
  also have "\<dots> = card (set (map r_link (fst (table_loop off es [] {}))))"
    using table_links_distinct by (rule distinct_card [symmetric])
  finally show ?thesis by (simp only: table_links_set)
qed

lemma table_links_subseq:
  "subseq (map r_link (fst (table_loop off es [] {}))) (map link_of es)"
proof -
  have "map r_link (fst (table_loop off es [] {})) = map link_of (survivors {} es)"
    by (simp add: table_loop_survivors o_def)
  then show ?thesis using survivors_subseq [of "{}" es] by (simp add: subseq_map)
qed

lemma first_occurrences_sorted: "sorted_wrt (<) (first_occurrences es)"
  unfolding first_occurrences_def by (rule sorted_wrt_filter) (simp add: sorted_wrt_upt)

text \<open>
  Claim C5: the table built from the entries \<open>es\<close> the loop iterates over
  (\<^verbatim>\<open>fp.entries[:limit]\<close>) has one row for each index \<open>i\<close> whose link is not empty and
  is not the link of an earlier entry, built from the entry at \<open>i\<close> (the first occurrence
  of its link), in increasing order of \<open>i\<close>; so the links of the rows are pairwise distinct,
  none is empty, and they follow the order of the feed.
\<close>

theorem google_news_to_table_dedup:
  assumes "feed w url = Inr entries" and "es = slice_to entries limit"
  shows "\<exists>rows. google_news_to_table w url limit = ([Fetch url], Inr rows)
           \<and> rows = map (\<lambda>i. mk_row (local_zone w) (es ! i)) (first_occurrences es)
           \<and> sorted_wrt (<) (first_occurrences es)
           \<and> distinct (map r_link rows) \<and> [] \<notin> set (map r_link rows)
           \<and> set (map r_link rows) = link_of ` set es - {[]}
           \<and> subseq (map r_link rows) (map link_of es)"
  using assms table_links_distinct [of "local_zone w" es] table_links_set [of "local_zone w" es]
    table_links_subseq [of "local_zone w" es] first_occurrences_sorted [of es]
  by (simp add: google_news_to_table_def table_rows [symmetric])

theorem google_news_to_table_dedup_witness:
  "let E = [plain_entry (Some (asc ''a'')) (Some (asc ''first'')), plain_entry None None,
            plain_entry (Some (asc ''a'')) (Some (asc ''second'')),
            plain_entry (Some (asc ''b'')) None, plain_entry (Some []) None]
   in google_news_to_table (static_env utc_zone E) (asc ''u'') 50
        = ([Fetch (asc ''u'')], Inr [mk_row utc_zone (E ! 0), mk_row utc_zone (E ! 3)])"
  unfolding Let_def
  using google_news_to_table_dedup [of "static_env utc_zone E" "asc ''u''" E E 50 for E]
  by (simp add: static_env_def slice_to_def first_occurrences_def link_of_def plain_entry_def
        eval_nat_numeral)

section \<open>Properties of the request pipeline\<close>

lemma google_news_to_table_fetch: "fst (google_news_to_table w url limit) = [Fetch url]"
  by (simp add: google_news_to_table_def)

text \<open>What \<open>q_to_tb\<close> returns when it returns a table.\<close>

lemma q_to_tb_Inr:
  assumes "q_to_tb w place add = (evs, Inr (df, url, q))"
  shows "\<exists>entries. feed w url = Inr entries
           \<and> df = slice_to (fst (table_loop (local_zone w) (slice_to entries 50) [] {})) 20
           \<and> evs = [Fetch url] \<and> q = build_query place"
  using assms
  by (auto simp add: q_to_tb_def google_news_to_table_def Let_def
        split: sum.splits prod.splits)

lemma q_to_tb_length:
  assumes "q_to_tb w place add = (evs, Inr (df, url, q))"
  shows "length df \<le> 20"
proof -
  from q_to_tb_Inr [OF assms] obtain entries where
    "df = slice_to (fst (table_loop (local_zone w) (slice_to entries 50) [] {})) 20" by blast
  then show ?thesis by (simp add: length_slice_to)
qed

lemma cards_page:
  "cards (page w run place max_rows) =
     (if run \<and> strip place \<noteq> [] then
        (case snd (q_to_tb w place []) of
           Inl f \<Rightarrow> []
         | Inr (df, url, q) \<Rightarrow> slice_to df max_rows)
      else [])"
proof -
  have c: "cards evs = []" if "evs = [Fetch u]" for evs u using that by simp
  have e: "slice_to [] max_rows = ([] :: row list)" by (simp add: slice_to_def)
  show ?thesis
    apply (cases "q_to_tb w place []")
    subgoal for evs r
      apply (cases r)
       apply (auto simp add: page_def Let_def e dest!: q_to_tb_Inr)
       apply (auto simp add: q_to_tb_def google_news_to_table_def Let_def split: sum.splits)
      done
    done
qed


text \<open>
  The cards of a run are the first \<^verbatim>\<open>max_rows\<close> of the first 20 rows of the table built
  from the first 50 entries of the feed. For \<^verbatim>\<open>max_rows\<close> in 10..50 their number is the
  least of \<^verbatim>\<open>max_rows\<close>, 20 and the number of distinct non-empty links among the first
  50 entries; so for \<^verbatim>\<open>max_rows\<close> in 10..20, a feed whose first 50 entries hold at least
  \<^verbatim>\<open>max_rows\<close> distinct non-empty links gives exactly \<^verbatim>\<open>max_rows\<close> cards.
\<close>

lemma displayed_rows:
  assumes "strip place \<noteq> []"
    and "q_to_tb w place [] = (evs, Inr (df, url, q))"
    and "10 \<le> max_rows" "max_rows \<le> 50"
  shows "\<exists>entries. feed w url = Inr entries
           \<and> cards (page w True place max_rows)
               = take (nat max_rows)
                   (take 20 (fst (table_loop (local_zone w) (take 50 entries) [] {})))
           \<and> length (cards (page w True place max_rows))
               = min (nat max_rows) (min 20 (card (link_of ` set (take 50 entries) - {[]})))
           \<and> (max_rows \<le> 20 \<and> nat max_rows \<le> card (link_of ` set (take 50 entries) - {[]})
                \<longrightarrow> length (cards (page w True place max_rows)) = nat max_rows)"
proof -
  from q_to_tb_Inr [OF assms(2)] obtain entries where
    f: "feed w url = Inr entries" and
    df: "df = slice_to (fst (table_loop (local_zone w) (slice_to entries 50) [] {})) 20"
    by blast
  have c: "cards (page w True place max_rows) = slice_to df max_rows"
    using assms(1,2) by (simp add: cards_page)
  have d: "slice_to df max_rows
             = take (nat max_rows)
                 (take 20 (fst (table_loop (local_zone w) (take 50 entries) [] {})))"
    using assms(3) by (simp add: df slice_to_def)
  have l: "length (cards (page w True place max_rows))
             = min (nat max_rows) (min 20 (card (link_of ` set (take 50 entries) - {[]})))"
    unfolding c d by (simp add: table_length)
  show ?thesis
    using f c d l assms(3,4) by (intro exI [of _ entries]) auto
qed

section \<open>The sample request\<close>

lemmas calendar_eval = ord2ymd_def ymd2ord_def days_before_year_def days_before_month_def
  is_leap_def DAYS_BEFORE_MONTH_def DAYS_IN_MONTH_def DI400Y_def DI100Y_def DI4Y_def
  MAXORDINAL_def EPOCH_ORDINAL_def datetime_of_seconds_def seconds_of_datetime_def
  utcfromtimestamp_def fromutc_def JST_def date_of_def datetime_now_def date_sub_days_def
  toordinal_def fromordinal_def date_of_ymd_def isoformat_def fmt_d_def zpad_def digits.simps
  Let_def

lemma sample_yesterday: "xdaysago 1718409600000000 1 = Inr (asc ''2024-06-14'')"
  by (simp add: xdaysago_def calendar_eval)

lemma sample_tomorrow: "xdaysago 1718409600000000 (- 1) = Inr (asc ''2024-06-16'')"
  by (simp add: xdaysago_def calendar_eval)

lemma sample_quote_plus: "quote_plus (build_query shibuya_station) = Inr sample_quoted"
  by (simp add: quote_plus_def quote_def build_query_def strip_def isspace_def EVENT_TERMS_def
        utf8_char_def quoter_def always_safe_def hex_digit_def replace_def
        shibuya_station_def sample_quoted_def)

lemma sample_q_to_tb:
  "q_to_tb (static_env z es) shibuya_station [] =
     ([Fetch sample_url],
      Inr (slice_to (fst (table_loop z (slice_to es 50) [] {})) 20, sample_url,
           build_query shibuya_station))"
  by (simp add: q_to_tb_def static_env_def sample_yesterday sample_tomorrow sample_quote_plus
        google_news_to_table_def sample_url_def Let_def)

lemma strip_shibuya: "strip shibuya_station \<noteq> []"
  by (simp add: strip_def shibuya_station_def isspace_def)

lemma link_of_numbered:
  "map link_of (numbered_entries n) = map (\<lambda>k. [97 + k]) [0..<n]"
  by (simp add: numbered_entries_def link_of_def plain_entry_def)

lemma take_upt_min: "take m [0..<n] = [0..<min m n]"
  by (cases "m \<le> n") (simp_all add: min_def)

lemma numbered_links_card:
  "card (link_of ` set (take m (numbered_entries n)) - {[]}) = min m n"
proof -
  have "link_of ` set (take m (numbered_entries n)) = set (take m (map link_of (numbered_entries n)))"
    by (simp add: take_map)
  also have "\<dots> = (\<lambda>k. [97 + k]) ` {0..<min m n}"
    by (simp add: link_of_numbered take_map take_upt_min)
  finally have e: "link_of ` set (take m (numbered_entries n)) = (\<lambda>k. [97 + k]) ` {0..<min m n}" .
  have "card ((\<lambda>k. [97 + k]) ` {0..<min m n} - {[]}) = card ((\<lambda>k. [97 + k]) ` {0..<min m n})"
    by (rule arg_cong [where f = card]) auto
  also have "\<dots> = min m n"
    by (subst card_image) (auto simp: inj_on_def)
  finally show ?thesis by (simp only: e)
qed


lemma displayed_rows_example:
  "length (cards (page (static_env utc_zone (numbered_entries 15)) True shibuya_station 10)) = 10"
proof -
  from displayed_rows [OF strip_shibuya sample_q_to_tb, of 10 utc_zone "numbered_entries 15"]
  obtain entries where f: "feed (static_env utc_zone (numbered_entries 15)) sample_url = Inr entries"
    and i: "10 \<le> (20::int) \<and> nat 10 \<le> card (link_of ` set (take 50 entries) - {[]})
          \<longrightarrow> length (cards (page (static_env utc_zone (numbered_entries 15)) True shibuya_station 10)) = nat 10"
    by auto
  from f have "entries = numbered_entries 15" by (simp add: static_env_def)
  then have "nat 10 \<le> card (link_of ` set (take 50 entries) - {[]})"
    by (simp add: numbered_links_card)
  with i show ?thesis by simp
qed

text \<open>
  Every position of the slider from 20 upwards gives the same page as 20.
\<close>

lemma dead_slider:
  assumes "20 \<le> m"
  shows "page w run place m = page w run place 20"
proof -
  have "slice_to df m = slice_to df 20"
    if "q_to_tb w place [] = (evs, Inr (df, url, q))" for evs df url q
    using q_to_tb_length [OF that] assms by (simp add: slice_to_def)
  then show ?thesis
    by (auto simp add: page_def Let_def split: prod.splits sum.splits)
qed

text \<open>
  Claim C1 at \<^verbatim>\<open>max_rows\<close> = 25 (a position of the slider, which goes from 10 to 50) and
  a feed of 25 entries with 25 different, non-empty links: the run displays 20 cards, where
  the claim gives 25. The table is cut to 20 rows (\<^verbatim>\<open>.iloc[:20]\<close>) before
  \<^verbatim>\<open>df.head(max_rows)\<close> is applied.
\<close>

theorem slider_25_displays_20:
  "length (numbered_entries 25) = 25 \<and> distinct (map link_of (numbered_entries 25))
   \<and> [] \<notin> set (map link_of (numbered_entries 25))
   \<and> length (cards (page (static_env utc_zone (numbered_entries 25)) True shibuya_station 25)) = 20"
proof -
  have "length (cards (page (static_env utc_zone (numbered_entries 25)) True shibuya_station 25)) = 20"
    by (simp add: cards_page strip_shibuya sample_q_to_tb slice_to_def table_length
          numbered_links_card)
  moreover have "distinct (map link_of (numbered_entries 25))"
    by (simp add: link_of_numbered distinct_map inj_on_def)
  moreover have "[] \<notin> set (map link_of (numbered_entries 25))"
    by (auto simp add: link_of_numbered)
  moreover have "length (numbered_entries 25) = 25"
    by (simp add: numbered_entries_def)
  ultimately show ?thesis by blast
qed

section \<open>Empty input\<close>

lemma strip_blank:
  assumes "list_all isspace p"
  shows "strip p = []"
proof -
  have "\<forall>x\<in>set p. isspace x" using assms by (simp add: list_all_iff)
  then have d: "dropWhile isspace p = []" by (subst dropWhile_eq_Nil_conv)
  show ?thesis unfolding strip_def d by simp
qed

text \<open>
  Claim C9: when the place is empty or consists of whitespace only, a run triggered by
  the button shows the warning and nothing else; no feed is fetched.
\<close>

theorem blank_place_warned:
  assumes "list_all isspace place"
  shows "page w True place max_rows = [Warning] \<and> fetches (page w True place max_rows) = []"
  using strip_blank [OF assms] by (simp add: page_def)

theorem blank_place_warned_witness:
  "page (static_env utc_zone (numbered_entries 3)) True [32, 12288, 9] 20 = [Warning]"
  using blank_place_warned [of "[32, 12288, 9]" "static_env utc_zone (numbered_entries 3)" 20]
  by (simp add: isspace_def)

section \<open>The source and the timestamp of a row\<close>

lemma r_source_mk_row:
  "r_source (mk_row off e) =
     (case e_source e of None \<Rightarrow> None | Some (SourceDict t) \<Rightarrow> t | Some SourceOther \<Rightarrow> Some [])"
  by (simp add: mk_row_def Let_def split: option.splits source_value.splits)

text \<open>
  Claim C8 at an entry without a \<^verbatim>\<open>source\<close> key, and at one whose source dictionary has
  no \<^verbatim>\<open>title\<close>: the source of the row is \<^verbatim>\<open>None\<close>, not the empty string. Only a
  source that is not a dictionary gives the empty string.
\<close>

theorem missing_source_gives_None:
  "r_source (mk_row utc_zone \<lparr>e_link = Some (asc ''http://a''), e_title = Some (asc ''t''),
                        e_source = None, e_published_parsed = None\<rparr>) = None
   \<and> r_source (mk_row utc_zone \<lparr>e_link = Some (asc ''http://a''), e_title = Some (asc ''t''),
                        e_source = Some (SourceDict None), e_published_parsed = None\<rparr>) = None
   \<and> r_source (mk_row utc_zone \<lparr>e_link = Some (asc ''http://a''), e_title = Some (asc ''t''),
                        e_source = Some SourceOther, e_published_parsed = None\<rparr>) = Some []"
  by (simp add: r_source_mk_row)

lemma published_to_jst_failure:
  "e_published_parsed e = None \<or> isl (published_to_jst_try off e) \<Longrightarrow> published_to_jst off e = None"
  by (auto simp add: published_to_jst_def published_to_jst_try_def split: sum.splits)

lemma r_published_mk_row:
  "r_published_jst (mk_row off e) =
     (case published_to_jst off e of Some dt \<Rightarrow> strftime dt | None \<Rightarrow> [])"
  by (simp add: mk_row_def Let_def)

lemma first_occurrences_mem:
  "i \<in> set (first_occurrences es) \<longleftrightarrow>
     i < length es \<and> link_of (es ! i) \<noteq> [] \<and> link_of (es ! i) \<notin> set (map link_of (take i es))"
  by (auto simp add: first_occurrences_def)

text \<open>
  Claim C7: for an entry that passes the link filter (its link is not empty and no earlier
  entry has it) and that carries no published time, or one whose conversion raises, the
  conversion returns \<^verbatim>\<open>None\<close>, the table is still built, and it holds the row of that
  entry, with the empty string as its timestamp. The number of rows is the number of first
  occurrences of links, whatever the timestamps are.
\<close>

theorem bad_timestamp_absorbed:
  assumes "feed w url = Inr entries" and "es = slice_to entries limit"
    and "i < length es" and "link_of (es ! i) \<noteq> []"
    and "link_of (es ! i) \<notin> set (map link_of (take i es))"
    and "e_published_parsed (es ! i) = None \<or> isl (published_to_jst_try (local_zone w) (es ! i))"
  shows "published_to_jst (local_zone w) (es ! i) = None
         \<and> (\<exists>rows. google_news_to_table w url limit = ([Fetch url], Inr rows)
               \<and> mk_row (local_zone w) (es ! i) \<in> set rows
               \<and> r_published_jst (mk_row (local_zone w) (es ! i)) = []
               \<and> length rows = length (first_occurrences es))"
proof -
  have n: "published_to_jst (local_zone w) (es ! i) = None"
    using assms(6) by (rule published_to_jst_failure)
  have m: "i \<in> set (first_occurrences es)"
    using assms(3,4,5) by (simp add: first_occurrences_mem)
  have g: "google_news_to_table w url limit
             = ([Fetch url], Inr (map (\<lambda>i. mk_row (local_zone w) (es ! i)) (first_occurrences es)))"
    using assms(1,2) by (simp add: google_news_to_table_def table_rows)
  show ?thesis
    using n m g by (auto simp add: r_published_mk_row)
qed

lemma year_10000_raises:
  "published_to_jst_try utc_zone (published_entry (asc ''a'')
      \<lparr>tm_year = 10000, tm_mon = 1, tm_mday = 1, tm_hour = 0, tm_min = 0, tm_sec = 0,
       tm_wday = 5, tm_yday = 1, tm_isdst = 0\<rparr>) = Inl ValueError"
  by (simp add: published_to_jst_try_def published_entry_def mktime_def fits_c_int_def
        utc_zone_def zone_without_dst_def calendar_eval)

theorem bad_timestamp_absorbed_witness:
  "\<exists>rows. google_news_to_table
       (static_env utc_zone [published_entry (asc ''a'')
          \<lparr>tm_year = 10000, tm_mon = 1, tm_mday = 1, tm_hour = 0, tm_min = 0, tm_sec = 0,
           tm_wday = 5, tm_yday = 1, tm_isdst = 0\<rparr>]) (asc ''u'') 50 = ([Fetch (asc ''u'')], Inr rows)
     \<and> \<lparr>r_title = [], r_source = None, r_published_jst = [], r_link = asc ''a''\<rparr> \<in> set rows
     \<and> length rows = 1"
proof -
  define e where "e = published_entry (asc ''a'')
          \<lparr>tm_year = 10000, tm_mon = 1, tm_mday = 1, tm_hour = 0, tm_min = 0, tm_sec = 0,
           tm_wday = 5, tm_yday = 1, tm_isdst = 0\<rparr>"
  define W where "W = static_env utc_zone [e]"
  have fd: "feed W (asc ''u'') = Inr [e]" and lo: "local_zone W = utc_zone"
    by (simp_all add: W_def static_env_def)
  have sl: "[e] = slice_to [e] 50" by (simp add: slice_to_def)
  have r: "e_published_parsed ([e] ! 0) = None \<or> isl (published_to_jst_try (local_zone W) ([e] ! 0))"
    unfolding lo nth_Cons_0 e_def year_10000_raises by simp
  have l: "link_of e = asc ''a''" by (simp add: e_def link_of_def published_entry_def)
  have f: "first_occurrences [e] = [0]" using l by (simp add: first_occurrences_def)
  have t: "e_title e = None" "e_source e = None" by (simp_all add: e_def published_entry_def)
  from bad_timestamp_absorbed [OF fd sl _ _ _ r] l
  have c: "published_to_jst utc_zone e = None
      \<and> (\<exists>rows. google_news_to_table W (asc ''u'') 50 = ([Fetch (asc ''u'')], Inr rows)
            \<and> mk_row utc_zone e \<in> set rows \<and> length rows = length (first_occurrences [e]))"
    by (auto simp add: lo)
  then have m: "mk_row utc_zone e = \<lparr>r_title = [], r_source = None, r_published_jst = [], r_link = asc ''a''\<rparr>"
    using l t by (simp add: mk_row_def Let_def)
  have "\<exists>rows. google_news_to_table W (asc ''u'') 50 = ([Fetch (asc ''u'')], Inr rows)
     \<and> \<lparr>r_title = [], r_source = None, r_published_jst = [], r_link = asc ''a''\<rparr> \<in> set rows
     \<and> length rows = 1"
    using c unfolding m f by simp
  then show ?thesis unfolding W_def e_def .
qed

text \<open>
  Claim C6 on a host whose local zone is Japan's: an entry published at 2024-06-15 00:00
  UTC is shown as 2024-06-15 00:00, where the claim gives 2024-06-15 09:00, the value the
  same code computes on a host whose local zone is UTC. \<^verbatim>\<open>time.mktime\<close> reads the UTC
  fields as local time, so the result is off by the offset of the local zone at that time.
\<close>

theorem published_time_local_zone:
  "r_published_jst (mk_row tokyo_zone (published_entry (asc ''a'')
      \<lparr>tm_year = 2024, tm_mon = 6, tm_mday = 15, tm_hour = 0, tm_min = 0, tm_sec = 0,
       tm_wday = 5, tm_yday = 167, tm_isdst = 0\<rparr>)) = asc ''2024-06-15 00:00''
   \<and> r_published_jst (mk_row utc_zone (published_entry (asc ''a'')
      \<lparr>tm_year = 2024, tm_mon = 6, tm_mday = 15, tm_hour = 0, tm_min = 0, tm_sec = 0,
       tm_wday = 5, tm_yday = 167, tm_isdst = 0\<rparr>)) = asc ''2024-06-15 09:00''"
  by (simp add: r_published_mk_row published_to_jst_def published_to_jst_try_def
        published_entry_def mktime_def fits_c_int_def strftime_def utc_zone_def tokyo_zone_def
        zone_without_dst_def calendar_eval)

section \<open>Clock readings and dates\<close>

lemma div_eq_between:
  fixes x k q :: int
  assumes "0 < k" "k * q \<le> x" "x < k * (q + 1)"
  shows "x div k = q"
proof -
  have "x = k * q + (x - k * q)" by simp
  moreover have "0 \<le> x - k * q" "x - k * q < k" using assms by (simp_all add: algebra_simps)
  ultimately show ?thesis by (rule int_div_pos_eq)
qed

lemma jst_day_in_day:
  assumes "jst_midnight D \<le> now" "now < jst_midnight (D + 1)"
  shows "jst_day now = D"
proof -
  define t where "t = now div 1000000"
  define a where "a = (D - EPOCH_ORDINAL) * 86400 - 32400"
  have lo: "a \<le> t"
  proof -
    have "a * 1000000 div 1000000 \<le> now div 1000000"
      using assms(1) unfolding jst_midnight_def a_def by (intro zdiv_mono1) simp_all
    then show ?thesis by (simp add: t_def)
  qed
  have hi: "t < a + 86400"
  proof -
    have "now < 1000000 * a + 86400000000"
      using assms(2) unfolding jst_midnight_def a_def by (simp add: algebra_simps)
    moreover have "1000000 * t \<le> now"
    proof -
      define m where "m = now mod 1000000"
      have "now = 1000000 * t + m" "0 \<le> m" by (simp_all add: t_def m_def)
      then show ?thesis by linarith
    qed
    ultimately show ?thesis by linarith
  qed
  have "(t + 32400) div 86400 = D - EPOCH_ORDINAL"
    using lo hi unfolding a_def by (intro div_eq_between) simp_all
  then show ?thesis by (simp add: jst_day_def t_def)
qed

lemma time_of_day_recompose:
  "r div 3600 * 3600 + r mod 3600 div 60 * 60 + r mod 60 = (r::int)"
proof -
  define h where "h = r div 3600"
  define u where "u = r mod 3600"
  define mi where "mi = u div 60"
  define sc where "sc = u mod 60"
  have "r = 3600 * h + u" by (simp add: h_def u_def)
  moreover have "u = 60 * mi + sc" by (simp add: mi_def sc_def)
  moreover have "r mod 60 = sc" unfolding sc_def u_def by (simp add: mod_mod_cancel)
  ultimately show ?thesis unfolding h_def [symmetric] u_def [symmetric] mi_def [symmetric]
    by linarith
qed

lemma datetime_of_seconds_Some:
  assumes "0 < s div 86400" "s div 86400 \<le> MAXORDINAL"
  shows "\<exists>dt. datetime_of_seconds s = Some dt \<and> date_of dt = fromordinal (s div 86400)
           \<and> seconds_of_datetime dt = s"
proof -
  obtain y m d where o: "ord2ymd (s div 86400) = (y, m, d)" by (metis prod_cases3)
  define r where "r = s mod 86400"
  define dt where "dt = \<lparr>dt_year = y, dt_month = m, dt_day = d, dt_hour = r div 3600,
      dt_minute = r mod 3600 div 60, dt_second = r mod 60\<rparr>"
  have 1: "datetime_of_seconds s = Some dt"
    using assms o by (simp add: datetime_of_seconds_def Let_def dt_def r_def)
  have 2: "date_of dt = fromordinal (s div 86400)"
    by (simp add: date_of_def dt_def fromordinal_def date_of_ymd_def o)
  have "seconds_of_datetime dt
          = s div 86400 * 86400 + (r div 3600 * 3600 + r mod 3600 div 60 * 60 + r mod 60)"
    by (simp add: seconds_of_datetime_def dt_def ymd2ord_ord2ymd [OF o])
  also have "\<dots> = s div 86400 * 86400 + r" by (simp only: time_of_day_recompose)
  also have "\<dots> = s" by (simp add: r_def)
  finally have 3: "seconds_of_datetime dt = s" .
  from 1 2 3 show ?thesis by blast
qed

lemma utc_day_bounds:
  "jst_day now - 1 \<le> EPOCH_ORDINAL + now div 1000000 div 86400
   \<and> EPOCH_ORDINAL + now div 1000000 div 86400 \<le> jst_day now"
proof -
  define t where "t = now div 1000000"
  have "t div 86400 \<le> (t + 32400) div 86400" by (intro zdiv_mono1) simp_all
  moreover have "(t + 32400) div 86400 \<le> (t + 86400) div 86400" by (intro zdiv_mono1) simp_all
  moreover have "(t + 86400) div 86400 = t div 86400 + 1" by simp
  ultimately show ?thesis by (simp add: jst_day_def t_def)
qed

text \<open>The date \<open>datetime.now(JST).date()\<close> is the Japanese calendar day of the instant.\<close>

lemma datetime_now_date:
  assumes "2 \<le> jst_day now" "jst_day now \<le> MAXORDINAL"
  shows "\<exists>dt. datetime_now now JST = Inr dt \<and> date_of dt = fromordinal (jst_day now)"
proof -
  define t where "t = now div 1000000"
  define s where "s = EPOCH_ORDINAL * 86400 + t"
  have sd: "s div 86400 = EPOCH_ORDINAL + t div 86400" by (simp add: s_def)
  have "0 < s div 86400" "s div 86400 \<le> MAXORDINAL"
    using utc_day_bounds [of now] assms unfolding sd t_def by linarith+
  from datetime_of_seconds_Some [OF this] obtain dt0 where
    u: "datetime_of_seconds s = Some dt0" and su: "seconds_of_datetime dt0 = s" by blast
  have jd: "(s + 32400) div 86400 = jst_day now"
  proof -
    have "s + 32400 = (t + 32400) + EPOCH_ORDINAL * 86400" by (simp add: s_def)
    then show ?thesis by (simp add: jst_day_def t_def)
  qed
  have "0 < (s + 32400) div 86400" "(s + 32400) div 86400 \<le> MAXORDINAL"
    using assms unfolding jd by linarith+
  from datetime_of_seconds_Some [OF this] obtain dt where
    j: "datetime_of_seconds (s + 32400) = Some dt"
    and dj: "date_of dt = fromordinal ((s + 32400) div 86400)" by blast
  have "datetime_now now JST = Inr dt"
    using u su j by (simp add: datetime_now_def utcfromtimestamp_def fromutc_def JST_def s_def t_def)
  then show ?thesis using dj jd by simp
qed

lemma xdaysago_day:
  assumes "2 \<le> jst_day now" "jst_day now \<le> MAXORDINAL"
    and "\<bar>x\<bar> \<le> 999999999" "0 < jst_day now - x" "jst_day now - x \<le> MAXORDINAL"
  shows "xdaysago now x = Inr (isoformat (fromordinal (jst_day now - x)))"
proof -
  from datetime_now_date [OF assms(1,2)] obtain dt where
    "datetime_now now JST = Inr dt" "date_of dt = fromordinal (jst_day now)" by blast
  then show ?thesis
    using assms(3-5) by (simp add: xdaysago_def date_sub_days_def toordinal_fromordinal Let_def)
qed

text \<open>
  For every day \<open>D\<close> of the Japanese calendar (here its ordinal; the day before the last
  representable one at most) and all instants \<open>now1\<close> and \<open>now2\<close> of that day, from its
  midnight in Japan up to the next, the date read at \<open>now1\<close> is \<open>D\<close>, one day before it is
  the ISO form of day \<open>D - 1\<close>, and one day after the date read at \<open>now2\<close> is the ISO form
  of day \<open>D + 1\<close>.
\<close>

lemma date_window:
  assumes "jst_midnight D \<le> now1" "now1 < jst_midnight (D + 1)"
    and "jst_midnight D \<le> now2" "now2 < jst_midnight (D + 1)"
    and "2 \<le> D" "D < MAXORDINAL"
  shows "xdaysago now1 0 = Inr (isoformat (fromordinal D))
       \<and> xdaysago now1 1 = Inr (isoformat (fromordinal (D - 1)))
       \<and> xdaysago now2 (- 1) = Inr (isoformat (fromordinal (D + 1)))
       \<and> toordinal (fromordinal (D - 1)) = D - 1 \<and> toordinal (fromordinal (D + 1)) = D + 1"
proof -
  have d1: "jst_day now1 = D" using assms(1,2) by (rule jst_day_in_day)
  have d2: "jst_day now2 = D" using assms(3,4) by (rule jst_day_in_day)
  have "xdaysago now1 0 = Inr (isoformat (fromordinal (jst_day now1 - 0)))"
    using assms(5,6) unfolding d1 [symmetric] by (intro xdaysago_day) simp_all
  moreover have "xdaysago now1 1 = Inr (isoformat (fromordinal (jst_day now1 - 1)))"
    using assms(5,6) unfolding d1 [symmetric] by (intro xdaysago_day) simp_all
  moreover have "xdaysago now2 (- 1) = Inr (isoformat (fromordinal (jst_day now2 - (- 1))))"
    using assms(5,6) unfolding d2 [symmetric] by (intro xdaysago_day) simp_all
  ultimately show ?thesis by (simp add: d1 d2 toordinal_fromordinal)
qed

lemma sample_days:
  "isoformat (fromordinal 739051) = asc ''2024-06-14''"
  "isoformat (fromordinal 739052) = asc ''2024-06-15''"
  "isoformat (fromordinal 739053) = asc ''2024-06-16''"
  "isoformat (fromordinal 739054) = asc ''2024-06-17''"
  by (simp_all add: calendar_eval)

lemma date_window_example:
  "xdaysago 1718409600000000 1 = Inr (asc ''2024-06-14'')
   \<and> xdaysago 1718463599999999 (- 1) = Inr (asc ''2024-06-16'')
   \<and> xdaysago 1718463600000000 1 = Inr (asc ''2024-06-15'')"
proof -
  have m: "jst_midnight 739052 = 1718377200000000" "jst_midnight (739052 + 1) = 1718463600000000"
    "jst_midnight 739053 = 1718463600000000" "jst_midnight (739053 + 1) = 1718550000000000"
    by (simp_all add: jst_midnight_def EPOCH_ORDINAL_def)
  have a: "xdaysago 1718409600000000 1 = Inr (isoformat (fromordinal (739052 - 1)))
      \<and> xdaysago 1718463599999999 (- 1) = Inr (isoformat (fromordinal (739052 + 1)))"
    using date_window [of 739052 1718409600000000 1718463599999999]
    unfolding m by (simp add: MAXORDINAL_def)
  have b: "xdaysago 1718463600000000 1 = Inr (isoformat (fromordinal (739053 - 1)))"
    using date_window [of 739053 1718463600000000 1718463600000000]
    unfolding m by (simp add: MAXORDINAL_def)
  from a b show ?thesis by (simp add: sample_days)
qed

section \<open>The request URL\<close>

lemma digits_is_digit: "list_all is_digit (digits n)"
proof (induction n rule: digits.induct)
  case (1 n)
  show ?case
  proof (cases "n < 10")
    case True
    then show ?thesis by (subst digits.simps) (simp add: is_digit_def)
  next
    case False
    have "n mod 10 < 10" by simp
    then have "is_digit (48 + n mod 10)" unfolding is_digit_def by linarith
    with False 1 show ?thesis by (subst digits.simps) simp
  qed
qed

lemma digits_length: "0 < k \<Longrightarrow> n < 10 ^ k \<Longrightarrow> length (digits n) \<le> k"
proof (induction n arbitrary: k rule: digits.induct)
  case (1 n)
  show ?case
  proof (cases "n < 10")
    case True
    then show ?thesis using 1(2) by (subst digits.simps) simp
  next
    case False
    from 1(2) obtain j where kj: "k = Suc j" by (cases k) auto
    have "0 < j"
    proof (rule ccontr)
      assume "\<not> 0 < j"
      then have "n < 10" using kj 1(3) by simp
      with False show False by simp
    qed
    note k = kj this
    have "n div 10 < 10 ^ j" using 1(3) k by (simp add: less_mult_imp_div_less mult.commute)
    from 1(1) [OF False k(2) this] show ?thesis
      using False k by (subst digits.simps) simp
  qed
qed

lemma fmt_d_shape:
  assumes "0 \<le> n" "n < 10 ^ w" "0 < w"
  shows "length (fmt_d w n) = w \<and> list_all is_digit (fmt_d w n)"
proof -
  have "nat n < 10 ^ w" using assms(1,2) by (simp add: nat_less_iff)
  from digits_length [OF assms(3) this] digits_is_digit [of "nat n"] assms(1)
  show ?thesis by (auto simp add: fmt_d_def zpad_def list_all_iff is_digit_def)
qed

lemma iso_date_shapeI:
  assumes "length a = 4" "length b = 2" "length c = 2"
    and "list_all is_digit a" "list_all is_digit b" "list_all is_digit c"
  shows "iso_date_shape (a @ asc ''-'' @ b @ asc ''-'' @ c)"
  using assms by (simp add: iso_date_shape_def nth_append)

lemma isoformat_shape:
  assumes "0 < n" "n \<le> MAXORDINAL"
  shows "iso_date_shape (isoformat (fromordinal n))"
proof -
  obtain y m d where o: "ord2ymd n = (y, m, d)" by (metis prod_cases3)
  from ord2ymd_range [OF o] assms
  have r: "1 \<le> y" "y \<le> 9999" "1 \<le> m" "m \<le> 12" "1 \<le> d" "d \<le> 31" by simp_all
  have "length (fmt_d 4 y) = 4 \<and> list_all is_digit (fmt_d 4 y)"
    using r by (intro fmt_d_shape) simp_all
  moreover have "length (fmt_d 2 m) = 2 \<and> list_all is_digit (fmt_d 2 m)"
    using r by (intro fmt_d_shape) simp_all
  moreover have "length (fmt_d 2 d) = 2 \<and> list_all is_digit (fmt_d 2 d)"
    using r by (intro fmt_d_shape) simp_all
  ultimately have "iso_date_shape (fmt_d 4 y @ asc ''-'' @ fmt_d 2 m @ asc ''-'' @ fmt_d 2 d)"
    by (intro iso_date_shapeI) simp_all
  then show ?thesis by (simp add: isoformat_def fromordinal_def date_of_ymd_def o)
qed

lemma xdaysago_shape:
  assumes "xdaysago now x = Inr s"
  shows "iso_date_shape s"
proof -
  from assms obtain dt d where "date_sub_days (date_of dt) x = Inr d" and s: "s = isoformat d"
    by (auto simp add: xdaysago_def split: sum.splits)
  then have "0 < toordinal (date_of dt) + (- x) \<and> toordinal (date_of dt) + (- x) \<le> MAXORDINAL
      \<and> d = fromordinal (toordinal (date_of dt) + (- x))"
    by (auto simp add: date_sub_days_def Let_def split: if_splits)
  then show ?thesis unfolding s by (simp add: isoformat_shape)
qed

lemma utf8_char_bytes: "utf8_char c = Inr bs \<Longrightarrow> list_all (\<lambda>b. b < 256) bs"
  by (auto simp add: utf8_char_def split: if_splits)

lemma encode_utf8_bytes: "encode_utf8 s = Inr bs \<Longrightarrow> list_all (\<lambda>b. b < 256) bs"
proof (induction s arbitrary: bs)
  case Nil
  then show ?case by simp
next
  case (Cons c cs)
  then show ?case
    by (auto split: sum.splits dest: utf8_char_bytes)
qed

lemma hex_digit_safe: "d < 16 \<Longrightarrow> always_safe (hex_digit d)"
  unfolding always_safe_def hex_digit_def by (cases "d < 10") simp_all

lemma quoter_chars:
  assumes "b < 256"
  shows "list_all (\<lambda>c. url_safe c \<or> c \<in> set safe) (quoter safe b)"
proof -
  have "b div 16 < 16" "b mod 16 < 16" using assms by simp_all
  then show ?thesis
    by (simp add: quoter_def url_safe_def hex_digit_safe)
qed

lemma quote_chars:
  assumes "quote s safe = Inr q"
  shows "list_all (\<lambda>c. url_safe c \<or> c \<in> set safe) q"
proof (cases "s = []")
  case True
  then show ?thesis using assms by (simp add: quote_def)
next
  case False
  then obtain bs where b: "encode_utf8 s = Inr bs" and q: "q = concat (map (quoter safe) bs)"
    using assms by (auto simp add: quote_def split: sum.splits)
  from encode_utf8_bytes [OF b] show ?thesis
    unfolding q by (induction bs) (simp_all add: quoter_chars)
qed

lemma quote_plus_chars:
  assumes "quote_plus s = Inr q"
  shows "list_all url_safe q"
proof (cases "32 \<in> set s")
  case False
  then have "quote s [] = Inr q" using assms by (simp add: quote_plus_def)
  from quote_chars [OF this] show ?thesis by simp
next
  case True
  then obtain q' where q': "quote s [32] = Inr q'" and q: "q = replace q' 32 43"
    using assms by (auto simp add: quote_plus_def split: sum.splits)
  from quote_chars [OF q'] show ?thesis
    unfolding q replace_def by (induction q') (auto simp add: url_safe_def)
qed

lemma q_to_tb_url:
  assumes "xdaysago (clock1 w) 1 = Inr y" "xdaysago (clock2 w) (- 1) = Inr t"
    and "quote_plus (build_query place) = Inr enc"
    and "u = asc ''https://news.google.com/rss/search?q=after:'' @ y @ asc ''+before:'' @ t
               @ asc ''+'' @ enc @ asc ''&hl=ja&gl=JP&ceid=JP:ja'' @ add"
  shows "q_to_tb w place add =
     ([Fetch u],
      case feed w u of
        Inl err \<Rightarrow> Inl (FetchFailed err)
      | Inr entries \<Rightarrow>
          Inr (slice_to (fst (table_loop (local_zone w) (slice_to entries 50) [] {})) 20, u,
               build_query place))"
  using assms
  by (simp add: q_to_tb_def google_news_to_table_def Let_def split: sum.splits)

text \<open>
  Claim C3: when the two dates are computed and the query is quoted (the place holds no
  surrogate code point), the request \<open>q_to_tb\<close> makes for the handler's call (no \<^verbatim>\<open>add\<close>)
  is for exactly the URL of the claim, and that URL is the one it returns; the dates have
  the shape \<^verbatim>\<open>YYYY-MM-DD\<close> and the quoted query holds only unreserved characters,
  \<^verbatim>\<open>%\<close> and \<^verbatim>\<open>+\<close>.
\<close>

theorem request_url:
  assumes "xdaysago (clock1 w) 1 = Inr dateFrom" "xdaysago (clock2 w) (- 1) = Inr dateTo"
    and "quote_plus (build_query place) = Inr quoted"
    and "u = asc ''https://news.google.com/rss/search?q=after:'' @ dateFrom @ asc ''+before:''
               @ dateTo @ asc ''+'' @ quoted @ asc ''&hl=ja&gl=JP&ceid=JP:ja''"
  shows "fst (q_to_tb w place []) = [Fetch u]
       \<and> (\<forall>df url q. snd (q_to_tb w place []) = Inr (df, url, q) \<longrightarrow> url = u \<and> q = build_query place)
       \<and> iso_date_shape dateFrom \<and> iso_date_shape dateTo \<and> list_all url_safe quoted"
proof -
  have u: "u = asc ''https://news.google.com/rss/search?q=after:'' @ dateFrom @ asc ''+before:''
               @ dateTo @ asc ''+'' @ quoted @ asc ''&hl=ja&gl=JP&ceid=JP:ja'' @ []"
    using assms(4) by simp
  note q = q_to_tb_url [OF assms(1-3) u]
  have "fst (q_to_tb w place []) = [Fetch u]" by (simp add: q)
  moreover have "url = u \<and> qq = build_query place"
    if "snd (q_to_tb w place []) = Inr (df, url, qq)" for df url qq
    using that by (auto simp add: q split: sum.splits)
  ultimately show ?thesis
    using xdaysago_shape [OF assms(1)] xdaysago_shape [OF assms(2)] quote_plus_chars [OF assms(3)]
    by blast
qed

theorem request_url_witness:
  "fst (q_to_tb (static_env utc_zone []) shibuya_station []) = [Fetch sample_url]
   \<and> iso_date_shape (asc ''2024-06-14'') \<and> list_all url_safe sample_quoted"
proof -
  have c: "clock1 (static_env utc_zone []) = 1718409600000000" "clock2 (static_env utc_zone []) = 1718409600000000"
    by (simp_all add: static_env_def)
  from request_url [of "static_env utc_zone []" "asc ''2024-06-14''" "asc ''2024-06-16''" shibuya_station
      sample_quoted sample_url]
  show ?thesis
    unfolding c by (simp add: sample_yesterday sample_tomorrow sample_quote_plus sample_url_def)
qed

section \<open>A request across midnight\<close>

text \<open>
  Claim C4 at a request that begins in the last microsecond of 2024-06-15 in Japan:
  \<open>q_to_tb\<close> reads the clock once for \<^verbatim>\<open>yesterday\<close> and once more for \<^verbatim>\<open>tomorrow\<close>, the
  second reading falls on 2024-06-16, and the request is for
  \<^verbatim>\<open>after:2024-06-14+before:2024-06-17\<close>: three days wide, with \<^verbatim>\<open>before\<close> two days
  after the day the request was made, where the claim gives 2024-06-16.
\<close>

theorem request_across_midnight:
  "xdaysago (clock1 midnight_env) 0 = Inr (asc ''2024-06-15'')
   \<and> xdaysago (clock2 midnight_env) 0 = Inr (asc ''2024-06-16'')
   \<and> fst (q_to_tb midnight_env shibuya_station [])
       = [Fetch (asc ''https://news.google.com/rss/search?q=after:2024-06-14+before:2024-06-17+''
                  @ sample_quoted @ asc ''&hl=ja&gl=JP&ceid=JP:ja'')]"
proof -
  have m: "jst_midnight 739052 = 1718377200000000" "jst_midnight (739052 + 1) = 1718463600000000"
    "jst_midnight 739053 = 1718463600000000" "jst_midnight (739053 + 1) = 1718550000000000"
    by (simp_all add: jst_midnight_def EPOCH_ORDINAL_def)
  have c: "clock1 midnight_env = 1718463599999999" "clock2 midnight_env = 1718463600000000"
    by (simp_all add: midnight_env_def)
  have a: "xdaysago 1718463599999999 0 = Inr (asc ''2024-06-15'')
      \<and> xdaysago 1718463599999999 1 = Inr (asc ''2024-06-14'')"
    using date_window [of 739052 1718463599999999 1718463599999999]
    unfolding m by (simp add: MAXORDINAL_def sample_days)
  have b: "xdaysago 1718463600000000 0 = Inr (asc ''2024-06-16'')
      \<and> xdaysago 1718463600000000 (- 1) = Inr (asc ''2024-06-17'')"
    using date_window [of 739053 1718463600000000 1718463600000000]
    unfolding m by (simp add: MAXORDINAL_def sample_days)
  have y: "xdaysago (clock1 midnight_env) 1 = Inr (asc ''2024-06-14'')"
    and t: "xdaysago (clock2 midnight_env) (- 1) = Inr (asc ''2024-06-17'')"
    unfolding c using a b by simp_all
  have "q_to_tb midnight_env shibuya_station [] =
     ([Fetch (asc ''https://news.google.com/rss/search?q=after:2024-06-14+before:2024-06-17+''
                  @ sample_quoted @ asc ''&hl=ja&gl=JP&ceid=JP:ja'')],
      case feed midnight_env
             (asc ''https://news.google.com/rss/search?q=after:2024-06-14+before:2024-06-17+''
                  @ sample_quoted @ asc ''&hl=ja&gl=JP&ceid=JP:ja'') of
        Inl err \<Rightarrow> Inl (FetchFailed err)
      | Inr entries \<Rightarrow>
          Inr (slice_to (fst (table_loop (local_zone midnight_env) (slice_to entries 50) [] {})) 20,
               asc ''https://news.google.com/rss/search?q=after:2024-06-14+before:2024-06-17+''
                  @ sample_quoted @ asc ''&hl=ja&gl=JP&ceid=JP:ja'',
               build_query shibuya_station))"
    by (rule q_to_tb_url [OF y t sample_quote_plus]) simp
  then show ?thesis using a b by (simp add: c)
qed

end
